theory Spec2Isabelle
  imports Complex_Main "HOL-Library.Word" "HOL-Library.AList" "HOL-Library.Multiset"
    "HOL-Library.Sublist"
begin

text \<open>
  A model of the core of the input-tools extension: the text segmenter, the response
  decoder and the URL builder of utils.ts, and the pagination hook and the keystroke
  handlers of the component in input-tools.tsx. The repository holds two variants of
  each file; they differ in the segmenter (one reads char codes, one tests regular
  expressions) and in how the pagination hook is split, and both are modelled. Module
  state (the \<open>lastIndex\<close> of the regular expressions, the URL cache) and component
  state are passed explicitly; exceptions are values of the type \<open>error\<close>.
\<close>

section \<open>JavaScript strings\<close>

text \<open>
  A JavaScript string is a sequence of UTF-16 code units. \<open>ascii\<close> writes a string
  literal of the source whose characters are all ASCII; other characters are written as
  their code units (U+4F60 is \<open>0x4F60\<close>).
\<close>

type_synonym code_unit = "16 word"
type_synonym jsstring = "code_unit list"

definition ascii :: "string \<Rightarrow> jsstring" where
  "ascii s = map of_char s"

definition isHighSurrogate :: "code_unit \<Rightarrow> bool" where
  "isHighSurrogate c \<longleftrightarrow> 0xD800 \<le> c \<and> c \<le> 0xDBFF"

definition isLowSurrogate :: "code_unit \<Rightarrow> bool" where
  "isLowSurrogate c \<longleftrightarrow> 0xDC00 \<le> c \<and> c \<le> 0xDFFF"

text \<open>
  The regular expression atom \<open>.\<close> (without the \<open>s\<close> flag) matches every code unit
  but the line terminators; \<open>String.prototype.trim\<close> removes white space and line
  terminators at both ends.
\<close>

definition isLineTerminator :: "code_unit \<Rightarrow> bool" where
  "isLineTerminator c \<longleftrightarrow> c = 0x000A \<or> c = 0x000D \<or> c = 0x2028 \<or> c = 0x2029"

definition isWhiteSpace :: "code_unit \<Rightarrow> bool" where
  "isWhiteSpace c \<longleftrightarrow>
     c = 0x0009 \<or> c = 0x000B \<or> c = 0x000C \<or> c = 0x0020 \<or> c = 0x00A0 \<or> c = 0x1680 \<or>
     (0x2000 \<le> c \<and> c \<le> 0x200A) \<or> c = 0x202F \<or> c = 0x205F \<or> c = 0x3000 \<or> c = 0xFEFF"

definition isTrimmed :: "code_unit \<Rightarrow> bool" where
  "isTrimmed c \<longleftrightarrow> isWhiteSpace c \<or> isLineTerminator c"

definition trim :: "jsstring \<Rightarrow> jsstring" where
  "trim s = rev (dropWhile isTrimmed (rev (dropWhile isTrimmed s)))"

text \<open>
  \<open>for (const char of text)\<close> iterates by code point: a high surrogate followed by a
  low surrogate is one two-unit string, every other code unit a string of its own.
\<close>

fun codePoints :: "jsstring \<Rightarrow> jsstring list" where
  "codePoints [] = []"
| "codePoints [c] = [[c]]"
| "codePoints (c # d # cs) =
     (if isHighSurrogate c \<and> isLowSurrogate d then [c, d] # codePoints cs
      else [c] # codePoints (d # cs))"

section \<open>Text segmenter (utils.ts)\<close>

record segments =
  chinese :: jsstring
  english :: jsstring

subsection \<open>The variant that reads char codes\<close>

text \<open>
  \<^verbatim>\<open>
  for (let i = 0; i < text.length; i++) {
    const code = text.charCodeAt(i);
    if (code >= 0x4e00 && code <= 0x9fff) { chinese += text[i]; }
    else if (code < 48 || code > 57) { english += text[i]; }
  }\<close>
\<close>

fun separate_charCode_loop :: "jsstring \<Rightarrow> jsstring \<Rightarrow> jsstring \<Rightarrow> segments" where
  "separate_charCode_loop [] zh en = \<lparr>chinese = zh, english = en\<rparr>"
| "separate_charCode_loop (code # rest) zh en =
     (if code \<ge> 0x4e00 \<and> code \<le> 0x9fff then separate_charCode_loop rest (zh @ [code]) en
      else if code < 48 \<or> code > 57 then separate_charCode_loop rest zh (en @ [code])
      else separate_charCode_loop rest zh en)"

definition separateChineseAndEnglish_charCode :: "jsstring \<Rightarrow> segments" where
  "separateChineseAndEnglish_charCode text =
     (if text = [] then \<lparr>chinese = [], english = []\<rparr>
      else separate_charCode_loop text [] [])"

subsection \<open>The variant that tests two global regular expressions\<close>

text \<open>
  \<open>CHINESE_REGEX\<close> (the class of the code units U+4E00 to U+9FFF, flag \<open>g\<close>) and
  \<open>NUMERIC_REGEX = /[0-9]/g\<close> are module constants. A regular expression with the \<open>g\<close> flag is stateful: \<open>test\<close> starts
  the search at \<open>lastIndex\<close>, stores the end of the match there when it finds one and
  stores 0 when it finds none (also when \<open>lastIndex\<close> is beyond the string). The two
  \<open>lastIndex\<close> values outlive a call, so they are threaded through the model.
\<close>

record regexes =
  chineseLastIndex :: nat
  numericLastIndex :: nat

definition isChineseUnit :: "code_unit \<Rightarrow> bool" where
  "isChineseUnit c \<longleftrightarrow> 0x4e00 \<le> c \<and> c \<le> 0x9fff"

definition isNumericUnit :: "code_unit \<Rightarrow> bool" where
  "isNumericUnit c \<longleftrightarrow> 0x30 \<le> c \<and> c \<le> 0x39"

definition regexTest :: "(code_unit \<Rightarrow> bool) \<Rightarrow> nat \<Rightarrow> jsstring \<Rightarrow> bool \<times> nat" where
  "regexTest cls lastIndex s =
     (case find (\<lambda>i. cls (s ! i)) [lastIndex ..< length s] of
        None \<Rightarrow> (False, 0)
      | Some i \<Rightarrow> (True, Suc i))"

text \<open>
  \<^verbatim>\<open>
  for (const char of text) {
    if (CHINESE_REGEX.test(char)) {
      chinese += char;
      CHINESE_REGEX.lastIndex = 0;
    } else if (!NUMERIC_REGEX.test(char)) {
      english += char;
      NUMERIC_REGEX.lastIndex = 0;
    }
  }\<close>
  When \<open>NUMERIC_REGEX.test\<close> succeeds (the digit is dropped) nothing resets its
  \<open>lastIndex\<close>.
\<close>

fun separate_forOf :: "jsstring list \<Rightarrow> regexes \<Rightarrow> jsstring \<Rightarrow> jsstring \<Rightarrow> segments \<times> regexes" where
  "separate_forOf [] re zh en = (\<lparr>chinese = zh, english = en\<rparr>, re)"
| "separate_forOf (char # rest) re zh en =
     (let (isChinese, ci) = regexTest isChineseUnit (chineseLastIndex re) char in
      if isChinese then
        separate_forOf rest (re\<lparr>chineseLastIndex := 0\<rparr>) (zh @ char) en
      else
        (let (isNumeric, ni) = regexTest isNumericUnit (numericLastIndex re) char in
         if \<not> isNumeric then
           separate_forOf rest (re\<lparr>chineseLastIndex := ci, numericLastIndex := 0\<rparr>)
             zh (en @ char)
         else
           separate_forOf rest (re\<lparr>chineseLastIndex := ci, numericLastIndex := ni\<rparr>)
             zh en))"

definition separateChineseAndEnglish :: "regexes \<Rightarrow> jsstring \<Rightarrow> segments \<times> regexes" where
  "separateChineseAndEnglish re text =
     (if text = [] then (\<lparr>chinese = [], english = []\<rparr>, re)
      else separate_forOf (codePoints text) re [] [])"

definition freshRegexes :: regexes where
  "freshRegexes = \<lparr>chineseLastIndex = 0, numericLastIndex = 0\<rparr>"

section \<open>Pagination (input-tools.tsx)\<close>

text \<open>
  The numbers of the hook are array lengths, the constant 6 and a page counter; they are
  modelled as integers and \<open>Math.ceil(totalItems / safeItemsPerPage)\<close> as the ceiling
  of the exact quotient. The field \<open>safePage\<close> is the property \<open>currentPage\<close> of the
  returned object; the local constants \<open>totalPages\<close> and \<open>safePage\<close> of the source are
  \<open>pages\<close> and \<open>page\<close> here.
\<close>

record pagination =
  totalPages :: int
  hasNextPage :: bool
  hasPreviousPage :: bool
  startIndex :: int
  endIndex :: int
  safePage :: int

definition usePagination :: "int \<Rightarrow> int \<Rightarrow> int \<Rightarrow> pagination" where
  "usePagination totalItems itemsPerPage currentPage =
     (let safeItemsPerPage = max 1 itemsPerPage;
          pages = max 1 \<lceil>real_of_int totalItems / real_of_int safeItemsPerPage\<rceil>;
          page = min currentPage (pages - 1)
      in \<lparr>totalPages = pages,
          hasNextPage = (page < pages - 1),
          hasPreviousPage = (page > 0),
          startIndex = page * safeItemsPerPage,
          endIndex = (page + 1) * safeItemsPerPage,
          safePage = page\<rparr>)"

text \<open>
  The later variant of the component splits the hook in two; the first returns
  \<open>(safeItemsPerPage, totalPages)\<close>, the second
  \<open>(hasNextPage, hasPreviousPage, startIndex, endIndex, currentPage)\<close>.
\<close>

definition usePaginationCalculations :: "int \<Rightarrow> int \<Rightarrow> int \<times> int" where
  "usePaginationCalculations totalItems itemsPerPage =
     (let safeItemsPerPage = max 1 itemsPerPage;
          pages = max 1 \<lceil>real_of_int totalItems / real_of_int safeItemsPerPage\<rceil>
      in (safeItemsPerPage, pages))"

definition usePaginationState :: "int \<Rightarrow> int \<Rightarrow> int \<Rightarrow> bool \<times> bool \<times> int \<times> int \<times> int" where
  "usePaginationState currentPage pages safeItemsPerPage =
     (let page = min currentPage (pages - 1)
      in (page < pages - 1, page > 0, page * safeItemsPerPage, (page + 1) * safeItemsPerPage, page))"

section \<open>JSON values and \<open>JSON.parse\<close>\<close>

text \<open>
  The decoder asks of a parsed value whether it is an array, how long it is, whether it
  is the string \<open>"SUCCESS"\<close>, and (in the message of one error) for its conversion to
  a string. A number is kept as the text of its literal. An object is the list of its
  members in the order in which \<open>JSON.parse\<close> creates them, each name once: a name that
  occurs again in the text keeps its place and takes the later value.
\<close>

datatype json =
    JNull
  | JBool bool
  | JNumber jsstring
  | JString jsstring
  | JArray "json list"
  | JObject "(jsstring \<times> json) list"

subsection \<open>Tokens\<close>

datatype token = TLBracket | TRBracket | TLBrace | TRBrace | TComma | TColon | TScalar json

definition isJsonWhiteSpace :: "code_unit \<Rightarrow> bool" where
  "isJsonWhiteSpace c \<longleftrightarrow> c = 0x20 \<or> c = 0x09 \<or> c = 0x0A \<or> c = 0x0D"

definition isDigit :: "code_unit \<Rightarrow> bool" where
  "isDigit c \<longleftrightarrow> 0x30 \<le> c \<and> c \<le> 0x39"

definition isNumberUnit :: "code_unit \<Rightarrow> bool" where
  "isNumberUnit c \<longleftrightarrow> isDigit c \<or> c \<in> set (ascii ''+-.eE'')"

text \<open>
  A number is \<open>-? (0 | [1-9][0-9]*) (. [0-9]+)? ([eE] [+-]? [0-9]+)?\<close>. In a JSON text
  only white space, a comma or a closing bracket can follow a number, so the lexer takes
  the longest run of the units that occur in numbers and checks it against the grammar.
\<close>

definition validExponent :: "jsstring \<Rightarrow> bool" where
  "validExponent s =
     (case s of
        [] \<Rightarrow> True
      | e # r \<Rightarrow>
         (e = 0x65 \<or> e = 0x45) \<and>
         (let ds = (case r of [] \<Rightarrow> [] | x # t \<Rightarrow> if x = 0x2B \<or> x = 0x2D then t else r)
          in ds \<noteq> [] \<and> list_all isDigit ds))"

definition validFraction :: "jsstring \<Rightarrow> bool" where
  "validFraction s =
     (case s of
        [] \<Rightarrow> True
      | p # r \<Rightarrow>
         if p = 0x2E then takeWhile isDigit r \<noteq> [] \<and> validExponent (dropWhile isDigit r)
         else validExponent s)"

definition validNumber :: "jsstring \<Rightarrow> bool" where
  "validNumber s =
     (case (case s of [] \<Rightarrow> [] | m # r \<Rightarrow> if m = 0x2D then r else s) of
        [] \<Rightarrow> False
      | d # r \<Rightarrow>
         if d = 0x30 then validFraction r
         else isDigit d \<and> validFraction (dropWhile isDigit r))"

definition hexValue :: "code_unit \<Rightarrow> code_unit option" where
  "hexValue c =
     (if 0x30 \<le> c \<and> c \<le> 0x39 then Some (c - 0x30)
      else if 0x41 \<le> c \<and> c \<le> 0x46 then Some (c - 0x41 + 10)
      else if 0x61 \<le> c \<and> c \<le> 0x66 then Some (c - 0x61 + 10)
      else None)"

definition hex4 :: "code_unit \<Rightarrow> code_unit \<Rightarrow> code_unit \<Rightarrow> code_unit \<Rightarrow> code_unit option" where
  "hex4 a b c d =
     (case (hexValue a, hexValue b, hexValue c, hexValue d) of
        (Some x, Some y, Some z, Some w) \<Rightarrow> Some (((x * 16 + y) * 16 + z) * 16 + w)
      | _ \<Rightarrow> None)"

definition escapeOf :: "code_unit \<Rightarrow> code_unit option" where
  "escapeOf e =
     (if e = 0x22 then Some 0x22
      else if e = 0x5C then Some 0x5C
      else if e = 0x2F then Some 0x2F
      else if e = 0x62 then Some 0x08
      else if e = 0x66 then Some 0x0C
      else if e = 0x6E then Some 0x0A
      else if e = 0x72 then Some 0x0D
      else if e = 0x74 then Some 0x09
      else None)"

datatype lexmode = LexStart | LexString jsstring | LexNumber jsstring

definition emit :: "token \<Rightarrow> token list option \<Rightarrow> token list option" where
  "emit t r = map_option ((#) t) r"

fun lex :: "lexmode \<Rightarrow> jsstring \<Rightarrow> token list option" where
  "lex LexStart [] = Some []"
| "lex (LexString acc) [] = None"
| "lex (LexNumber acc) [] = (if validNumber acc then Some [TScalar (JNumber acc)] else None)"
| "lex LexStart (c # cs) =
     (if isJsonWhiteSpace c then lex LexStart cs
      else if c = 0x5B then emit TLBracket (lex LexStart cs)
      else if c = 0x5D then emit TRBracket (lex LexStart cs)
      else if c = 0x7B then emit TLBrace (lex LexStart cs)
      else if c = 0x7D then emit TRBrace (lex LexStart cs)
      else if c = 0x2C then emit TComma (lex LexStart cs)
      else if c = 0x3A then emit TColon (lex LexStart cs)
      else if c = 0x22 then lex (LexString []) cs
      else if c = 0x2D \<or> isDigit c then lex (LexNumber [c]) cs
      else if take 4 (c # cs) = ascii ''true'' then emit (TScalar (JBool True)) (lex LexStart (drop 3 cs))
      else if take 5 (c # cs) = ascii ''false'' then emit (TScalar (JBool False)) (lex LexStart (drop 4 cs))
      else if take 4 (c # cs) = ascii ''null'' then emit (TScalar JNull) (lex LexStart (drop 3 cs))
      else None)"
| "lex (LexNumber acc) (c # cs) =
     (if isNumberUnit c then lex (LexNumber (acc @ [c])) cs
      else if \<not> validNumber acc then None
      else if isJsonWhiteSpace c then emit (TScalar (JNumber acc)) (lex LexStart cs)
      else if c = 0x2C then emit (TScalar (JNumber acc)) (emit TComma (lex LexStart cs))
      else if c = 0x5D then emit (TScalar (JNumber acc)) (emit TRBracket (lex LexStart cs))
      else if c = 0x7D then emit (TScalar (JNumber acc)) (emit TRBrace (lex LexStart cs))
      else None)"
| "lex (LexString acc) (c # cs) =
     (if c = 0x22 then emit (TScalar (JString acc)) (lex LexStart cs)
      else if c = 0x5C then
        (case cs of
           [] \<Rightarrow> None
         | e # es \<Rightarrow>
            if e = 0x75 then
              (case es of
                 h1 # h2 # h3 # h4 # rest \<Rightarrow>
                   (case hex4 h1 h2 h3 h4 of
                      None \<Rightarrow> None
                    | Some u \<Rightarrow> lex (LexString (acc @ [u])) rest)
               | _ \<Rightarrow> None)
            else
              (case escapeOf e of
                 None \<Rightarrow> None
               | Some u \<Rightarrow> lex (LexString (acc @ [u])) es))
      else if c < 0x20 then None
      else lex (LexString (acc @ [c])) cs)"

subsection \<open>Parser\<close>

text \<open>
  The token list is read once with a stack of the arrays and objects that are still
  open; \<open>FKey k\<close> is a member name whose value is being read.
\<close>

datatype frame = FArray "json list" | FObject "(jsstring \<times> json) list" | FKey jsstring

datatype pmode = PValue | PValueOrClose | PKeyOrClose | PKey | PColon | PAfterValue | PDone json

fun complete :: "json \<Rightarrow> frame list \<Rightarrow> (pmode \<times> frame list) option" where
  "complete v [] = Some (PDone v, [])"
| "complete v (FArray es # st) = Some (PAfterValue, FArray (es @ [v]) # st)"
| "complete v (FKey k # FObject ms # st) =
     Some (PAfterValue, FObject (AList.update k v ms) # st)"
| "complete v _ = None"

definition openValue :: "frame list \<Rightarrow> token \<Rightarrow> (pmode \<times> frame list) option" where
  "openValue st t =
     (case t of
        TScalar v \<Rightarrow> complete v st
      | TLBracket \<Rightarrow> Some (PValueOrClose, FArray [] # st)
      | TLBrace \<Rightarrow> Some (PKeyOrClose, FObject [] # st)
      | _ \<Rightarrow> None)"

definition closeArray :: "frame list \<Rightarrow> (pmode \<times> frame list) option" where
  "closeArray st = (case st of FArray es # st' \<Rightarrow> complete (JArray es) st' | _ \<Rightarrow> None)"

definition closeObject :: "frame list \<Rightarrow> (pmode \<times> frame list) option" where
  "closeObject st = (case st of FObject ms # st' \<Rightarrow> complete (JObject ms) st' | _ \<Rightarrow> None)"

definition readKey :: "frame list \<Rightarrow> token \<Rightarrow> (pmode \<times> frame list) option" where
  "readKey st t = (case t of TScalar (JString k) \<Rightarrow> Some (PColon, FKey k # st) | _ \<Rightarrow> None)"

definition pstep :: "pmode \<Rightarrow> frame list \<Rightarrow> token \<Rightarrow> (pmode \<times> frame list) option" where
  "pstep m st t =
     (case m of
        PValue \<Rightarrow> openValue st t
      | PValueOrClose \<Rightarrow> if t = TRBracket then closeArray st else openValue st t
      | PKeyOrClose \<Rightarrow> if t = TRBrace then closeObject st else readKey st t
      | PKey \<Rightarrow> readKey st t
      | PColon \<Rightarrow> if t = TColon then Some (PValue, st) else None
      | PAfterValue \<Rightarrow>
         (case st of
            FArray es # st' \<Rightarrow>
              if t = TComma then Some (PValue, st)
              else if t = TRBracket then closeArray st else None
          | FObject ms # st' \<Rightarrow>
              if t = TComma then Some (PKey, st)
              else if t = TRBrace then closeObject st else None
          | _ \<Rightarrow> None)
      | PDone v \<Rightarrow> None)"

fun prun :: "pmode \<Rightarrow> frame list \<Rightarrow> token list \<Rightarrow> json option" where
  "prun m st [] = (case m of PDone v \<Rightarrow> Some v | _ \<Rightarrow> None)"
| "prun m st (t # ts) =
     (case pstep m st t of
        None \<Rightarrow> None
      | Some (m', st') \<Rightarrow> prun m' st' ts)"

definition JSON_parse :: "jsstring \<Rightarrow> json option" where
  "JSON_parse text = (case lex LexStart text of None \<Rightarrow> None | Some ts \<Rightarrow> prun PValue [] ts)"

section \<open>Errors\<close>

text \<open>
  The source throws \<open>Error\<close> objects that differ in their message; the constructors
  name the \<open>throw\<close> statements. \<open>ProviderError\<close> carries the status value whose
  string conversion the message \<open>API returned status: ...\<close> ends with. The other two
  constructors are the exceptions of built-in operations.
\<close>

datatype error =
    MalformedEnvelope   \<comment> \<open>\<open>Error("Invalid JSONP response format")\<close>\<close>
  | MalformedPayload    \<comment> \<open>\<open>Error("Failed to parse JSON response")\<close>\<close>
  | UnexpectedShape     \<comment> \<open>\<open>Error("Unexpected response format")\<close>\<close>
  | ProviderError json  \<comment> \<open>\<open>Error(`API returned status: ${status}`)\<close>\<close>
  | TypeError           \<comment> \<open>thrown by the string conversion of \<open>${status}\<close>\<close>
  | URIError            \<comment> \<open>thrown by \<open>encodeURIComponent\<close>\<close>

section \<open>Query URL builder (utils.ts)\<close>

subsection \<open>\<open>encodeURIComponent\<close>\<close>

text \<open>
  The built-in leaves the letters, the digits and \<open>- _ . ! ~ * ' ( )\<close> as they are and
  writes every other code point as the bytes of its UTF-8 encoding, each byte as \<open>%\<close>
  and two upper-case hexadecimal digits. It throws \<open>URIError\<close> at a surrogate that is
  not part of a pair.
\<close>

definition isUnreserved :: "code_unit \<Rightarrow> bool" where
  "isUnreserved c \<longleftrightarrow>
     (0x41 \<le> c \<and> c \<le> 0x5A) \<or> (0x61 \<le> c \<and> c \<le> 0x7A) \<or> (0x30 \<le> c \<and> c \<le> 0x39) \<or>
     c \<in> set (ascii ''-_.!~*()'') \<or> c = 0x27"

definition hexDigit :: "nat \<Rightarrow> code_unit" where
  "hexDigit n = ascii ''0123456789ABCDEF'' ! n"

definition percentByte :: "nat \<Rightarrow> jsstring" where
  "percentByte b = [0x25, hexDigit (b div 16), hexDigit (b mod 16)]"

definition utf8 :: "nat \<Rightarrow> nat list" where
  "utf8 cp =
     (if cp < 0x80 then [cp]
      else if cp < 0x800 then [0xC0 + cp div 64, 0x80 + cp mod 64]
      else if cp < 0x10000 then [0xE0 + cp div 4096, 0x80 + cp div 64 mod 64, 0x80 + cp mod 64]
      else [0xF0 + cp div 262144, 0x80 + cp div 4096 mod 64, 0x80 + cp div 64 mod 64,
            0x80 + cp mod 64])"

definition percentEncode :: "nat \<Rightarrow> jsstring" where
  "percentEncode cp = concat (map percentByte (utf8 cp))"

definition pairCodePoint :: "code_unit \<Rightarrow> code_unit \<Rightarrow> nat" where
  "pairCodePoint hi lo = 0x10000 + (unat hi - 0xD800) * 0x400 + (unat lo - 0xDC00)"

fun encodeURIComponent :: "jsstring \<Rightarrow> error + jsstring" where
  "encodeURIComponent [] = Inr []"
| "encodeURIComponent (c # cs) =
     (if isUnreserved c then map_sum id ((#) c) (encodeURIComponent cs)
      else if isHighSurrogate c then
        (case cs of
           [] \<Rightarrow> Inl URIError
         | d # ds \<Rightarrow>
            if isLowSurrogate d
            then map_sum id ((@) (percentEncode (pairCodePoint c d))) (encodeURIComponent ds)
            else Inl URIError)
      else if isLowSurrogate c then Inl URIError
      else map_sum id ((@) (percentEncode (unat c))) (encodeURIComponent cs))"

subsection \<open>The builder and its cache\<close>

text \<open>
  \<open>urlCache\<close> is a module-level \<open>Map\<close>: its entries in insertion order. \<open>set\<close> on a
  new key appends an entry, \<open>keys().next().value\<close> is the key of the first entry
  (\<open>undefined\<close> in an empty map), and \<open>if (firstKey)\<close> holds for a string that is not
  empty. The parameter \<open>chinese\<close> is optional; \<open>chinese ? a : b\<close> takes \<open>a\<close> when it
  is given and not empty.
\<close>

type_synonym urlCache = "(jsstring \<times> jsstring) list"

definition MAX_CACHE_SIZE :: nat where
  "MAX_CACHE_SIZE = 100"

definition callbackName :: jsstring where
  "callbackName = ascii ''_callbacks____raycast''"

definition cacheKeyOf :: "jsstring \<Rightarrow> jsstring option \<Rightarrow> jsstring" where
  "cacheKeyOf en zh =
     (case zh of
        None \<Rightarrow> en
      | Some c \<Rightarrow> if c \<noteq> [] then ascii ''|'' @ c @ ascii '','' @ en else en)"

definition urlOf :: "jsstring \<Rightarrow> jsstring" where
  "urlOf encodedInput =
     ascii ''https://inputtools.google.com/request?text='' @ encodedInput @
     ascii ''&itc=yue-hant-t-i0-und&num=13&cp=0&cs=1&ie=utf-8&oe=utf-8&app=jsapi&cb='' @
     callbackName"

definition evictOldest :: "urlCache \<Rightarrow> urlCache" where
  "evictOldest cache =
     (if length cache \<ge> MAX_CACHE_SIZE then
        (case cache of
           [] \<Rightarrow> cache
         | (firstKey, _) # _ \<Rightarrow> if firstKey \<noteq> [] then AList.delete firstKey cache else cache)
      else cache)"

definition buildSuggestionsUrl ::
  "jsstring \<Rightarrow> jsstring option \<Rightarrow> urlCache \<Rightarrow> (error + jsstring) \<times> urlCache" where
  "buildSuggestionsUrl en zh cache =
     (let input = cacheKeyOf en zh;
          cacheKey = input
      in case map_of cache cacheKey of
           Some url \<Rightarrow> (Inr url, cache)
         | None \<Rightarrow>
            (case encodeURIComponent input of
               Inl e \<Rightarrow> (Inl e, cache)
             | Inr encodedInput \<Rightarrow>
                (let url = urlOf encodedInput
                 in (Inr url, AList.update cacheKey url (evictOldest cache)))))"

definition clearUrlCache :: "urlCache \<Rightarrow> urlCache" where
  "clearUrlCache cache = []"

section \<open>Response decoder (utils.ts)\<close>

text \<open>
  \<open>JSONP_MATCH_REGEX = /\((.+)\)$/\<close>: \<open>match\<close> takes the leftmost \<open>(\<close> after which
  the rest of the text is one or more units other than line terminators followed by a
  \<open>)\<close> that ends the text; the group is what stands between the two.
  \<open>JSONP_ALT_MATCH_REGEX = /.*?\((.+)\)$/\<close> puts a lazy run of units other than line
  terminators before it. Both functions return the group \<open>match[1]\<close>.
\<close>

definition groupMatches :: "jsstring \<Rightarrow> bool" where
  "groupMatches cs \<longleftrightarrow>
     cs \<noteq> [] \<and> last cs = 0x29 \<and> butlast cs \<noteq> [] \<and>
     list_all (\<lambda>u. \<not> isLineTerminator u) (butlast cs)"

fun jsonpMatch :: "jsstring \<Rightarrow> jsstring option" where
  "jsonpMatch [] = None"
| "jsonpMatch (c # cs) =
     (if c = 0x28 \<and> groupMatches cs then Some (butlast cs) else jsonpMatch cs)"

fun lazyPrefix :: "jsstring \<Rightarrow> jsstring option" where
  "lazyPrefix [] = None"
| "lazyPrefix (c # cs) =
     (if c = 0x28 \<and> groupMatches cs then Some (butlast cs)
      else if isLineTerminator c then None
      else lazyPrefix cs)"

fun jsonpAltMatch :: "jsstring \<Rightarrow> jsstring option" where
  "jsonpAltMatch [] = None"
| "jsonpAltMatch (c # cs) =
     (case lazyPrefix (c # cs) of
        Some g \<Rightarrow> Some g
      | None \<Rightarrow> jsonpAltMatch cs)"

text \<open>
  \<^verbatim>\<open>
  if (Array.isArray(data)) {
    for (const item of data) {
      if (Array.isArray(item) && item.length >= 2 && Array.isArray(item[1])) {
        suggestions.push(...item[1]);
      }
    }
  }\<close>
\<close>

fun isArray :: "json \<Rightarrow> bool" where
  "isArray (JArray xs) = True"
| "isArray v = False"

fun elements :: "json \<Rightarrow> json list" where
  "elements (JArray xs) = xs"
| "elements v = []"

definition groupCandidates :: "json \<Rightarrow> json list" where
  "groupCandidates item =
     (if isArray item \<and> length (elements item) \<ge> 2 \<and> isArray (elements item ! 1)
      then elements (elements item ! 1)
      else [])"

definition collectSuggestions :: "json \<Rightarrow> json list" where
  "collectSuggestions data =
     (if isArray data then concat (map groupCandidates (elements data)) else [])"

text \<open>
  The template literal \<open>`API returned status: ${status}`\<close> converts the status to a
  string before the \<open>Error\<close> is made. For a value that \<open>JSON.parse\<close> returned the
  conversion throws a \<open>TypeError\<close> in these cases only: an object with a member named
  \<open>toString\<close> (the member hides \<open>Object.prototype.toString\<close> and is not a function,
  and \<open>valueOf\<close> is not a function or returns the object itself), and an array one of
  whose elements other than \<open>null\<close> has no conversion (\<open>Array.prototype.join\<close> converts
  each element but \<open>null\<close>). An object without such a member is \<open>[object Object]\<close>.
\<close>

fun toStringThrows :: "json \<Rightarrow> bool" where
  "toStringThrows (JArray xs) = list_ex (\<lambda>x. x \<noteq> JNull \<and> toStringThrows x) xs"
| "toStringThrows (JObject ms) = (ascii ''toString'' \<in> fst ` set ms)"
| "toStringThrows v = False"

definition jsonpPayload :: "jsstring \<Rightarrow> jsstring option" where
  "jsonpPayload jsonpText =
     (case jsonpMatch jsonpText of
        Some g \<Rightarrow> Some g
      | None \<Rightarrow> jsonpAltMatch jsonpText)"

definition parseSuggestionsResponse :: "jsstring \<Rightarrow> error + json list" where
  "parseSuggestionsResponse jsonpText =
     (case jsonpPayload jsonpText of
        None \<Rightarrow> Inl MalformedEnvelope
      | Some payload \<Rightarrow>
         (case JSON_parse payload of
            None \<Rightarrow> Inl MalformedPayload
          | Some jsonData \<Rightarrow>
             if \<not> isArray jsonData \<or> length (elements jsonData) < 2 then Inl UnexpectedShape
             else
               (let status = elements jsonData ! 0;
                    data = elements jsonData ! 1
                in if status \<noteq> JString (ascii ''SUCCESS'') then
                     (if toStringThrows status then Inl TypeError
                      else Inl (ProviderError status))
                   else Inr (collectSuggestions data))))"

section \<open>Input state machine (input-tools.tsx)\<close>

text \<open>
  The state of the component: its four \<open>useState\<close> cells (\<open>debouncedSearchText\<close> is
  the cell of \<open>useDebounce\<close>), the memoised \<open>suggestionsUrl\<close> (field \<open>locator\<close>), the
  \<open>data\<close> that \<open>useFetch\<close> returns (the candidate texts), and the two pieces of module
  state of utils.ts. Each handler runs on the state of the render that created it and the
  updates it queues take effect together.
\<close>

record state =
  searchText :: jsstring
  hasSelectedSuggestion :: bool
  debouncedSearchText :: jsstring
  currentPage :: int
  locator :: jsstring
  suggestions :: "jsstring list"
  regexState :: regexes
  cacheState :: urlCache

definition SUGGESTIONS_PER_PAGE :: int where
  "SUGGESTIONS_PER_PAGE = 6"

definition NUMERIC_KEYS :: "code_unit set" where
  "NUMERIC_KEYS = set (ascii ''12345690'')"

text \<open>
  \<open>Array.prototype.slice(start, end)\<close>: a negative index counts from the end, and both
  are clamped to the array.
\<close>

definition slice :: "int \<Rightarrow> int \<Rightarrow> 'a list \<Rightarrow> 'a list" where
  "slice start end xs =
     (let len = int (length xs);
          k = (if start < 0 then max (len + start) 0 else min start len);
          final = (if end < 0 then max (len + end) 0 else min end len)
      in take (nat (final - k)) (drop (nat k) xs))"

definition pageOf :: "state \<Rightarrow> pagination" where
  "pageOf st = usePagination (int (length (suggestions st))) SUGGESTIONS_PER_PAGE (currentPage st)"

text \<open>
  \<open>paginatedSuggestions\<close> is given by the texts of its items; the item at position \<open>i\<close>
  has \<open>index = i + 1\<close>.
\<close>

definition paginatedSuggestions :: "state \<Rightarrow> jsstring list" where
  "paginatedSuggestions st =
     (if suggestions st = [] then []
      else slice (startIndex (pageOf st)) (endIndex (pageOf st)) (suggestions st))"

text \<open>
  \<open>mutate(Promise.resolve([]), {optimisticUpdate: () => [], shouldRevalidateAfter: false})\<close>
  replaces the data of \<open>useFetch\<close> by the empty list at once.
\<close>

definition handleSuggestionSelect :: "state \<Rightarrow> jsstring \<Rightarrow> state" where
  "handleSuggestionSelect st suggestionText =
     (let (seg, re) = separateChineseAndEnglish (regexState st) (searchText st);
          newText = chinese seg @ suggestionText
      in st\<lparr>searchText := newText, hasSelectedSuggestion := True, suggestions := [],
            regexState := re\<rparr>)"

definition goToNextPage :: "state \<Rightarrow> state" where
  "goToNextPage st =
     (if hasNextPage (pageOf st)
      then st\<lparr>currentPage := min (currentPage st + 1) (totalPages (pageOf st) - 1)\<rparr>
      else st)"

definition goToPreviousPage :: "state \<Rightarrow> state" where
  "goToPreviousPage st =
     (if hasPreviousPage (pageOf st)
      then st\<lparr>currentPage := max (currentPage st - 1) 0\<rparr>
      else st)"

text \<open>
  \<open>SELECTION_REGEX = /^(.*?)([1-6]|9|0)$/\<close> matches a text whose last unit is one of
  the eight digits and whose other units hold no line terminator; group 1 is the text
  without its last unit.
\<close>

definition selectionMatch :: "jsstring \<Rightarrow> (jsstring \<times> int) option" where
  "selectionMatch text =
     (if text \<noteq> [] \<and> last text \<in> NUMERIC_KEYS \<and>
         list_all (\<lambda>u. \<not> isLineTerminator u) (butlast text)
      then Some (butlast text, uint (last text) - 48)
      else None)"

definition handleNumericAction :: "state \<Rightarrow> jsstring \<Rightarrow> bool \<times> state" where
  "handleNumericAction st text =
     (if text = [] \<or> last text \<notin> NUMERIC_KEYS then (False, st)
      else
        (case selectionMatch text of
           None \<Rightarrow> (False, st)
         | Some (baseText, num) \<Rightarrow>
            if num \<ge> 1 \<and> num \<le> 6 then
              (let selectedIndex = nat (num - 1) in
               if selectedIndex < length (paginatedSuggestions st)
               then (True, handleSuggestionSelect st (paginatedSuggestions st ! selectedIndex))
               else (False, st))
            else if num = 0 \<and> hasNextPage (pageOf st) then
              (True, (goToNextPage st)\<lparr>searchText := baseText\<rparr>)
            else if num = 9 \<and> hasPreviousPage (pageOf st) then
              (True, (goToPreviousPage st)\<lparr>searchText := baseText\<rparr>)
            else (False, st)))"

definition handleSearchTextChange :: "state \<Rightarrow> jsstring \<Rightarrow> state" where
  "handleSearchTextChange st text =
     (let st1 = (if trim text = [] then st\<lparr>hasSelectedSuggestion := False\<rparr> else st);
          (handled, st2) = handleNumericAction st1 text
      in if handled then st2
         else
           (let (seg, re) = separateChineseAndEnglish (regexState st2) text;
                newText = chinese seg @ english seg
            in st2\<lparr>searchText := newText, regexState := re\<rparr>))"

text \<open>
  The memoised locator: recomputed when \<open>debouncedSearchText\<close> changes. The result is
  the locator (the empty string when there is nothing to ask for) together with the
  module state the computation leaves behind.
\<close>

definition suggestionsUrl ::
  "jsstring \<Rightarrow> regexes \<Rightarrow> urlCache \<Rightarrow> (error + jsstring) \<times> regexes \<times> urlCache" where
  "suggestionsUrl debounced re cache =
     (if trim debounced = [] then (Inr [], re, cache)
      else
        (let (seg, re') = separateChineseAndEnglish re debounced in
         if trim (english seg) = [] then (Inr [], re', cache)
         else
           (let (url, cache') = buildSuggestionsUrl (english seg) (Some (chinese seg)) cache
            in (url, re', cache'))))"

text \<open>
  The debounce timer fires: the cell takes the current buffer. When that changes its
  value, the effect resets the page and the locator is recomputed; an exception of the
  builder ends the render. \<open>useFetch\<close> is called with \<open>execute: !!suggestionsUrl\<close>,
  \<open>keepPreviousData: true\<close> and \<open>initialData: []\<close>: a request is made for a locator that
  is not empty, and the component has no statement that changes the data of \<open>useFetch\<close>
  here.
\<close>

definition debounceElapsed :: "state \<Rightarrow> error + state" where
  "debounceElapsed st =
     (if searchText st = debouncedSearchText st then Inr st
      else
        (let (url, re, cache) = suggestionsUrl (searchText st) (regexState st) (cacheState st)
         in case url of
              Inl e \<Rightarrow> Inl e
            | Inr u \<Rightarrow>
               Inr (st\<lparr>debouncedSearchText := searchText st, currentPage := 0, locator := u,
                        regexState := re, cacheState := cache\<rparr>)))"

definition execute :: "state \<Rightarrow> bool" where
  "execute st \<longleftrightarrow> locator st \<noteq> []"

definition initialState :: state where
  "initialState =
     \<lparr>searchText = [], hasSelectedSuggestion = False, debouncedSearchText = [],
      currentPage = 0, locator = [], suggestions = [], regexState = freshRegexes,
      cacheState = []\<rparr>"

section \<open>Notions used in the statements\<close>

text \<open>
  A string is well formed when every surrogate in it is part of a pair; these are the
  strings that \<open>encodeURIComponent\<close> accepts.
\<close>

fun wellFormed :: "jsstring \<Rightarrow> bool" where
  "wellFormed [] = True"
| "wellFormed (c # cs) =
     (if isHighSurrogate c then
        (case cs of [] \<Rightarrow> False | d # ds \<Rightarrow> isLowSurrogate d \<and> wellFormed ds)
      else \<not> isLowSurrogate c \<and> wellFormed cs)"

text \<open>
  What a call of the builder returns when the cache plays no part: the locator of the
  canonical key, or the error of \<open>encodeURIComponent\<close>.
\<close>

definition locatorOf :: "jsstring \<Rightarrow> jsstring option \<Rightarrow> error + jsstring" where
  "locatorOf en zh = map_sum id urlOf (encodeURIComponent (cacheKeyOf en zh))"

text \<open>
  The invariant of the cache: no key twice, and every key stored with its own locator.
\<close>

definition cacheOk :: "urlCache \<Rightarrow> bool" where
  "cacheOk cache \<longleftrightarrow>
     distinct (map fst cache) \<and>
     (\<forall>(k, u) \<in> set cache. map_sum id urlOf (encodeURIComponent k) = Inr u)"

text \<open>
  The intended invariant of the cache, which holds as long as no key is empty.
\<close>

definition cacheBounded :: "urlCache \<Rightarrow> bool" where
  "cacheBounded cache \<longleftrightarrow>
     length cache \<le> MAX_CACHE_SIZE \<and> distinct (map fst cache) \<and> [] \<notin> fst ` set cache"

text \<open>
  A sequence of calls of the builder, each on the cache the call before left: the
  results in order, and the last cache.
\<close>

fun buildAll ::
  "(jsstring \<times> jsstring option) list \<Rightarrow> urlCache \<Rightarrow> (error + jsstring) list \<times> urlCache" where
  "buildAll [] cache = ([], cache)"
| "buildAll ((en, zh) # calls) cache =
     (let r = buildSuggestionsUrl en zh cache;
          rest = buildAll calls (snd r)
      in (fst r # fst rest, snd rest))"

text \<open>
  A candidate group as the decoder accepts it: an array of at least two elements whose
  second element is an array.
\<close>

definition validGroup :: "json \<Rightarrow> bool" where
  "validGroup g \<longleftrightarrow> isArray g \<and> 2 \<le> length (elements g) \<and> isArray (elements g ! 1)"

text \<open>
  The payload of the round-trip example: the JSON text
  \<open>["SUCCESS",[["m",[c1,c2,c3],[],{}]]]\<close> whose three candidates are the one-unit
  strings U+5514, U+4E94 and U+5348.
\<close>

definition example_payload :: jsstring where
  "example_payload = ascii ''[\"SUCCESS\",[[\"m\",[\"'' @ [0x5514] @ ascii ''\",\"'' @ [0x4E94]
      @ ascii ''\",\"'' @ [0x5348] @ ascii ''\"],[],{}]]]''"

text \<open>
  The segmenter of utils.ts read unit by unit, with the \<open>lastIndex\<close> of
  \<open>NUMERIC_REGEX\<close> as its state: a digit is dropped only when that is 0, and is kept
  in the query part otherwise.
\<close>

fun scan :: "nat \<Rightarrow> jsstring \<Rightarrow> jsstring \<Rightarrow> jsstring \<Rightarrow> segments \<times> nat" where
  "scan l [] zh en = (\<lparr>chinese = zh, english = en\<rparr>, l)"
| "scan l (c # cs) zh en =
     (if isChineseUnit c then scan l cs (zh @ [c]) en
      else if isNumericUnit c \<and> l = 0 then scan 1 cs zh en
      else scan 0 cs zh (en @ [c]))"

text \<open>
  The query part of a buffer in the words of the specification: its characters that are
  neither in U+4E00 to U+9FFF nor ASCII digits, in order.
\<close>

definition spec_query :: "jsstring \<Rightarrow> jsstring" where
  "spec_query buffer = filter (\<lambda>c. \<not> isChineseUnit c \<and> \<not> isNumericUnit c) buffer"

text \<open>
  States of the component for the examples. \<open>shown q cs\<close> is the state in which the
  buffer \<open>q\<close> (of letters only) was typed, its request was made and the candidates
  \<open>cs\<close> arrived. The examples are: seven candidates for the buffer \<open>nei\<close> (the fifth
  is U+4F60); seven candidates for the buffer \<open>a\<close>; the input cleared while the
  candidates for \<open>nei\<close> are shown; and the buffer after the candidate U+4F60 was
  selected.
\<close>

definition shown :: "jsstring \<Rightarrow> jsstring list \<Rightarrow> state" where
  "shown q cs =
     initialState\<lparr>searchText := q, debouncedSearchText := q, locator := urlOf q,
       suggestions := cs, cacheState := [(q, urlOf q)]\<rparr>"

definition seven_candidates :: "jsstring list" where
  "seven_candidates = [[0x5C3C], [0x59AE], [0x5462], [0x6CE5], [0x4F60], [0x60A8], [0x64EC]]"

definition nei_state :: state where
  "nei_state = shown (ascii ''nei'') seven_candidates"

definition typed_a :: state where
  "typed_a = shown (ascii ''a'') seven_candidates"

definition cleared_input :: state where
  "cleared_input = (shown (ascii ''nei'') seven_candidates)\<lparr>searchText := []\<rparr>"

definition selected_state :: state where
  "selected_state =
     (shown (ascii ''nei'') [])\<lparr>searchText := [0x4F60], hasSelectedSuggestion := True\<rparr>"

section \<open>Properties of the pagination hook\<close>

text \<open>
  Claim C5. For every total number of items, page size and requested page index the hook
  computes \<open>safePageSize = max(1, pageSize)\<close>,
  \<open>totalPages = max(1, ceil(totalItems / safePageSize))\<close>,
  \<open>clampedPage = min(requestedPageIndex, totalPages - 1)\<close>,
  \<open>hasNext = (clampedPage < totalPages - 1)\<close>, \<open>hasPrevious = (clampedPage > 0)\<close>,
  \<open>startIndex = clampedPage * safePageSize\<close> and \<open>endIndex = startIndex + safePageSize\<close>;
  the two hooks of the later variant compute the same values; and for 13 items, page size
  6 and requested page 5 the result is page 2 of 3, no next page, a previous page, and the
  slice from 12 to 18.
\<close>

theorem usePagination_formulas:
  "totalPages (usePagination totalItems pageSize requested)
     = max 1 \<lceil>real_of_int totalItems / real_of_int (max 1 pageSize)\<rceil>
   \<and> safePage (usePagination totalItems pageSize requested)
     = min requested (totalPages (usePagination totalItems pageSize requested) - 1)
   \<and> hasNextPage (usePagination totalItems pageSize requested)
     = (safePage (usePagination totalItems pageSize requested)
          < totalPages (usePagination totalItems pageSize requested) - 1)
   \<and> hasPreviousPage (usePagination totalItems pageSize requested)
     = (safePage (usePagination totalItems pageSize requested) > 0)
   \<and> startIndex (usePagination totalItems pageSize requested)
     = safePage (usePagination totalItems pageSize requested) * max 1 pageSize
   \<and> endIndex (usePagination totalItems pageSize requested)
     = startIndex (usePagination totalItems pageSize requested) + max 1 pageSize
   \<and> usePaginationState requested
         (snd (usePaginationCalculations totalItems pageSize))
         (fst (usePaginationCalculations totalItems pageSize))
     = (hasNextPage (usePagination totalItems pageSize requested),
        hasPreviousPage (usePagination totalItems pageSize requested),
        startIndex (usePagination totalItems pageSize requested),
        endIndex (usePagination totalItems pageSize requested),
        safePage (usePagination totalItems pageSize requested))
   \<and> usePagination 13 6 5
     = \<lparr>totalPages = 3, hasNextPage = False, hasPreviousPage = True,
        startIndex = 12, endIndex = 18, safePage = 2\<rparr>"
  by (simp add: usePagination_def usePaginationCalculations_def usePaginationState_def
      Let_def algebra_simps)

text \<open>
  The ceiling of the quotient in integer arithmetic, and the range of the clamped page
  for a requested page that is not negative.
\<close>

lemma ceil_div_int:
  fixes t m :: int
  assumes "0 < m"
  shows "- ((- t) div m) = (t + m - 1) div m"
proof -
  define q r where "q = t div m" and "r = t mod m"
  have t: "t = m * q + r" and r: "0 \<le> r" "r < m"
    using assms by (simp_all add: q_def r_def)
  show ?thesis
  proof (cases "r = 0")
    case True
    have "- t = m * (- q) + 0" using t True by simp
    then have a: "(- t) div m = - q" using assms by (simp only: int_div_pos_eq)
    have "t + m - 1 = m * q + (m - 1)" using t True by simp
    then have b: "(t + m - 1) div m = q"
      using assms int_div_pos_eq [of "t + m - 1" m q "m - 1"] by simp
    show ?thesis using a b by simp
  next
    case False
    have "- t = m * (- q - 1) + (m - r)" using t by (simp add: algebra_simps)
    then have a: "(- t) div m = - q - 1"
      using r False int_div_pos_eq [of "- t" m "- q - 1" "m - r"] by simp
    have "t + m - 1 = m * (q + 1) + (r - 1)" using t by (simp add: algebra_simps)
    then have b: "(t + m - 1) div m = q + 1"
      using r False int_div_pos_eq [of "t + m - 1" m "q + 1" "r - 1"] by simp
    show ?thesis using a b by simp
  qed
qed

lemma totalPages_div:
  "totalPages (usePagination t s r) = max 1 ((t + max 1 s - 1) div max 1 s)"
proof -
  have "\<lceil>real_of_int t / real_of_int (max 1 s)\<rceil> = - ((- t) div max 1 s)"
    by (rule ceiling_divide_eq_div)
  also have "\<dots> = (t + max 1 s - 1) div max 1 s"
    by (rule ceil_div_int) simp
  finally show ?thesis by (simp add: usePagination_def Let_def)
qed

lemma safePage_range:
  "0 \<le> r \<Longrightarrow>
     0 \<le> safePage (usePagination t s r) \<and>
     safePage (usePagination t s r) < totalPages (usePagination t s r)"
  by (auto simp: usePagination_def Let_def min_def max_def)

section \<open>Properties of the text segmenter\<close>

lemma chinese_not_numeric: "isChineseUnit c \<Longrightarrow> \<not> isNumericUnit c"
  by (auto simp: isChineseUnit_def isNumericUnit_def word_le_nat_alt)

subsection \<open>The variant that reads char codes\<close>

lemma separate_charCode_loop_filter:
  "separate_charCode_loop s zh en =
     \<lparr>chinese = zh @ filter isChineseUnit s,
      english = en @ filter (\<lambda>c. \<not> isChineseUnit c \<and> \<not> isNumericUnit c) s\<rparr>"
  by (induction s arbitrary: zh en)
     (auto simp: isChineseUnit_def isNumericUnit_def not_le not_less word_le_nat_alt
        word_less_nat_alt)

lemma separateChineseAndEnglish_charCode_filter:
  "separateChineseAndEnglish_charCode s =
     \<lparr>chinese = filter isChineseUnit s,
      english = filter (\<lambda>c. \<not> isChineseUnit c \<and> \<not> isNumericUnit c) s\<rparr>"
  by (simp add: separateChineseAndEnglish_charCode_def separate_charCode_loop_filter)

text \<open>
  The variant that reads char codes does what the specification of the segmenter says:
  the retained part holds only units of U+4E00 to U+9FFF, the query part neither such
  units nor digits, together they are the units of the input that are not digits, each in
  the order of the input, and the empty input gives two empty strings.
\<close>

lemma separateChineseAndEnglish_charCode_spec:
  "(\<forall>c \<in> set (chinese (separateChineseAndEnglish_charCode s)).
       isChineseUnit c \<and> \<not> isNumericUnit c)
   \<and> (\<forall>c \<in> set (english (separateChineseAndEnglish_charCode s)).
       \<not> isNumericUnit c \<and> \<not> isChineseUnit c)
   \<and> mset (chinese (separateChineseAndEnglish_charCode s))
       + mset (english (separateChineseAndEnglish_charCode s))
     = mset (filter (\<lambda>c. \<not> isNumericUnit c) s)
   \<and> subseq (chinese (separateChineseAndEnglish_charCode s)) s
   \<and> subseq (english (separateChineseAndEnglish_charCode s)) s
   \<and> separateChineseAndEnglish_charCode [] = \<lparr>chinese = [], english = []\<rparr>"
proof -
  have "mset (filter isChineseUnit s)
        + mset (filter (\<lambda>c. \<not> isChineseUnit c \<and> \<not> isNumericUnit c) s)
        = mset (filter (\<lambda>c. \<not> isNumericUnit c) s)"
    by (induction s) (auto simp: chinese_not_numeric)
  then show ?thesis
    by (auto simp: separateChineseAndEnglish_charCode_filter chinese_not_numeric)
qed

subsection \<open>The variant that tests two global regular expressions\<close>

text \<open>
  Claim C1 says that for every input the segmenter returns a retained part that holds
  only units of U+4E00 to U+9FFF and a query part that holds neither digits nor such
  units, that the two together are the units of the input that are not digits, in the
  order of the input, and that the empty input gives two empty strings. The variant of
  utils.ts that tests \<open>NUMERIC_REGEX\<close> lets digits into the query part: after a digit
  was dropped, \<open>lastIndex\<close> of the expression stays 1, the next test starts behind the
  one-unit string and fails, and the unit tested is appended to the query part whatever
  it is. On the input \<open>12\<close>, with both expressions fresh, the query part is \<open>2\<close>; a
  digit that ends one call makes the next call keep a leading digit; and the component,
  started afresh, stores the buffer \<open>2\<close> for the event text \<open>12\<close>.
\<close>

theorem separateChineseAndEnglish_keeps_digit:
  "separateChineseAndEnglish freshRegexes (ascii ''12'')
     = (\<lparr>chinese = [], english = ascii ''2''\<rparr>, freshRegexes)
   \<and> separateChineseAndEnglish
       (snd (separateChineseAndEnglish freshRegexes (ascii ''5''))) (ascii ''5'')
     = (\<lparr>chinese = [], english = ascii ''5''\<rparr>, freshRegexes)
   \<and> searchText (handleSearchTextChange initialState (ascii ''12'')) = ascii ''2''"
  by (simp add: separateChineseAndEnglish_def freshRegexes_def ascii_def regexTest_def
      isChineseUnit_def isNumericUnit_def isHighSurrogate_def isLowSurrogate_def
      handleSearchTextChange_def handleNumericAction_def selectionMatch_def
      paginatedSuggestions_def initialState_def NUMERIC_KEYS_def trim_def isTrimmed_def
      isWhiteSpace_def isLineTerminator_def)

section \<open>Properties of the URL builder\<close>

subsection \<open>\<open>encodeURIComponent\<close> and \<open>trim\<close>\<close>

lemma unreserved_not_surrogate:
  "isUnreserved c \<Longrightarrow> \<not> isHighSurrogate c \<and> \<not> isLowSurrogate c"
  by (auto simp: isUnreserved_def isHighSurrogate_def isLowSurrogate_def ascii_def word_le_nat_alt)

lemma high_not_low: "isHighSurrogate c \<Longrightarrow> \<not> isLowSurrogate c"
  by (auto simp: isHighSurrogate_def isLowSurrogate_def word_le_nat_alt)

lemma encodeURIComponent_wellFormed:
  "wellFormed s \<longleftrightarrow> (\<exists>e. encodeURIComponent s = Inr e)"
proof (induction s rule: wellFormed.induct)
  case 1
  then show ?case by simp
next
  case (2 c cs)
  show ?case
  proof (cases "isHighSurrogate c")
    case True
    then have nu: "\<not> isUnreserved c" using unreserved_not_surrogate by blast
    show ?thesis
    proof (cases cs)
      case Nil
      then show ?thesis using True nu by simp
    next
      case (Cons d ds)
      then show ?thesis using True nu 2(1) [OF True Cons]
        by (cases "encodeURIComponent ds") auto
    qed
  next
    case False
    then show ?thesis using 2(2) [OF False] unreserved_not_surrogate [of c]
      by (cases "encodeURIComponent cs") auto
  qed
qed

lemma encodeURIComponent_error: "encodeURIComponent s = Inl e \<Longrightarrow> e = URIError"
proof (induction s arbitrary: e rule: wellFormed.induct)
  case 1
  then show ?case by simp
next
  case (2 c cs)
  show ?case
  proof (cases "isUnreserved c")
    case True
    then show ?thesis using 2 unreserved_not_surrogate [of c]
      by (cases "encodeURIComponent cs") auto
  next
    case nu: False
    show ?thesis
    proof (cases "isHighSurrogate c")
      case True
      show ?thesis
      proof (cases cs)
        case Nil
        then show ?thesis using True nu 2(3) by simp
      next
        case (Cons d ds)
        then show ?thesis using True nu 2(1) [OF True Cons] 2(3)
          by (cases "encodeURIComponent ds") (auto split: if_splits)
      qed
    next
      case False
      then show ?thesis using 2(2) [OF False] 2(3) nu
        by (cases "encodeURIComponent cs") (auto split: if_splits)
    qed
  qed
qed

lemma encodeURIComponent_unreserved:
  "list_all isUnreserved s \<Longrightarrow> encodeURIComponent s = Inr s"
  by (induction s) auto

lemma wellFormed_append: "wellFormed a \<Longrightarrow> wellFormed b \<Longrightarrow> wellFormed (a @ b)"
  by (induction a rule: wellFormed.induct) (auto split: list.splits if_splits)

lemma wellFormed_no_surrogates:
  "\<forall>c \<in> set s. \<not> isHighSurrogate c \<and> \<not> isLowSurrogate c \<Longrightarrow> wellFormed s"
  by (induction s) auto

lemma trim_empty_iff: "trim s = [] \<longleftrightarrow> (\<forall>c \<in> set s. isTrimmed c)"
proof
  assume "trim s = []"
  then have "dropWhile isTrimmed (rev (dropWhile isTrimmed s)) = []"
    by (simp add: trim_def)
  then have "\<forall>c \<in> set (rev (dropWhile isTrimmed s)). isTrimmed c"
    by (simp only: dropWhile_eq_Nil_conv)
  then have a: "\<forall>c \<in> set (dropWhile isTrimmed s). isTrimmed c"
    by simp
  show "\<forall>c \<in> set s. isTrimmed c"
  proof (cases "dropWhile isTrimmed s")
    case Nil
    then show ?thesis by (simp only: dropWhile_eq_Nil_conv)
  next
    case (Cons x xs)
    then have "\<not> isTrimmed x" by (metis hd_dropWhile list.sel(1) list.simps(3))
    moreover have "isTrimmed x" using a Cons by simp
    ultimately show ?thesis by simp
  qed
next
  assume "\<forall>c \<in> set s. isTrimmed c"
  then have "dropWhile isTrimmed s = []" by (induction s) auto
  then show "trim s = []" by (simp only: trim_def rev.simps dropWhile.simps)
qed

lemma trimmed_not_surrogate:
  "isTrimmed c \<Longrightarrow> \<not> isHighSurrogate c \<and> \<not> isLowSurrogate c"
  by (auto simp: isTrimmed_def isWhiteSpace_def isLineTerminator_def isHighSurrogate_def
      isLowSurrogate_def word_le_nat_alt)

lemma blank_wellFormed: "trim en = [] \<Longrightarrow> wellFormed en"
  using trimmed_not_surrogate by (intro wellFormed_no_surrogates) (auto simp: trim_empty_iff)

lemma cacheKeyOf_wellFormed:
  assumes "wellFormed en" and "case zh of None \<Rightarrow> True | Some z \<Rightarrow> wellFormed z"
  shows "wellFormed (cacheKeyOf en zh)"
proof (cases zh)
  case None
  then show ?thesis using assms by (simp add: cacheKeyOf_def)
next
  case (Some z)
  have bar: "wellFormed (ascii ''|'')" and comma: "wellFormed (ascii '','')"
    by (simp_all add: ascii_def isHighSurrogate_def isLowSurrogate_def)
  have "wellFormed (ascii ''|'' @ z @ ascii '','' @ en)"
    using assms Some bar comma by (intro wellFormed_append) simp_all
  then show ?thesis using assms Some by (simp add: cacheKeyOf_def)
qed

lemma trim_space: "trim (ascii '' '') = []"
  by (simp add: trim_def ascii_def isTrimmed_def isWhiteSpace_def)

lemma encode_space: "encodeURIComponent (ascii '' '') = Inr (ascii ''%20'')"
  by (simp add: ascii_def isUnreserved_def isHighSurrogate_def isLowSurrogate_def
      percentEncode_def utf8_def percentByte_def hexDigit_def)

lemma encode_retained_space:
  "encodeURIComponent (cacheKeyOf (ascii '' '') (Some [0x4F60]))
     = Inr (ascii ''%7C%E4%BD%A0%2C%20'')"
  by (simp add: cacheKeyOf_def ascii_def isUnreserved_def isHighSurrogate_def isLowSurrogate_def
      percentEncode_def utf8_def percentByte_def hexDigit_def)

subsection \<open>The cache\<close>

lemma update_absent: "k \<notin> fst ` set al \<Longrightarrow> AList.update k v al = al @ [(k, v)]"
  by (induction al) auto

lemma map_of_None_keys: "map_of al k = None \<longleftrightarrow> k \<notin> fst ` set al"
  by (simp add: map_of_eq_None_iff)

lemma evictOldest_subset: "set (evictOldest cache) \<subseteq> set cache"
  by (auto simp: evictOldest_def AList.delete_eq split: list.splits)

lemma evictOldest_distinct:
  "distinct (map fst cache) \<Longrightarrow> distinct (map fst (evictOldest cache))"
  by (auto simp: evictOldest_def AList.distinct_delete split: list.splits)

lemma evictOldest_cacheOk: "cacheOk cache \<Longrightarrow> cacheOk (evictOldest cache)"
  using evictOldest_subset [of cache] evictOldest_distinct [of cache]
  by (auto simp: cacheOk_def)

lemma evictOldest_empty_key_first:
  "evictOldest (([], u) # rest) = ([], u) # rest"
  by (simp add: evictOldest_def)

lemma evictOldest_below_limit:
  "length cache < MAX_CACHE_SIZE \<Longrightarrow> evictOldest cache = cache"
  by (simp add: evictOldest_def)

lemma evictOldest_at_limit:
  "length cache \<ge> MAX_CACHE_SIZE \<Longrightarrow> cache = (k, u) # rest \<Longrightarrow> k \<noteq> [] \<Longrightarrow>
     distinct (map fst cache) \<Longrightarrow> evictOldest cache = rest"
proof -
  assume a: "length cache \<ge> MAX_CACHE_SIZE" "cache = (k, u) # rest" "k \<noteq> []"
    "distinct (map fst cache)"
  then have "k \<notin> fst ` set rest" by auto
  then have "AList.delete k rest = rest" by simp
  then show ?thesis using a by (simp add: evictOldest_def AList.delete_eq)
qed

lemma cacheOk_lookup:
  "cacheOk cache \<Longrightarrow> map_of cache k = Some u \<Longrightarrow>
     map_sum id urlOf (encodeURIComponent k) = Inr u"
  by (auto simp: cacheOk_def dest: map_of_SomeD)

lemma cacheOk_empty: "cacheOk []"
  by (simp add: cacheOk_def)

text \<open>
  On a cache that satisfies the invariant the result of a call does not depend on the
  cache, and the call keeps the invariant.
\<close>

lemma buildSuggestionsUrl_result:
  assumes "cacheOk cache"
  shows "fst (buildSuggestionsUrl en zh cache) = locatorOf en zh"
proof (cases "map_of cache (cacheKeyOf en zh)")
  case None
  then show ?thesis
    by (cases "encodeURIComponent (cacheKeyOf en zh)")
       (simp_all add: buildSuggestionsUrl_def locatorOf_def Let_def)
next
  case (Some u)
  then show ?thesis using cacheOk_lookup [OF assms Some]
    by (simp add: buildSuggestionsUrl_def locatorOf_def Let_def)
qed

lemma buildSuggestionsUrl_cache_new:
  assumes "map_of cache (cacheKeyOf en zh) = None"
    and "encodeURIComponent (cacheKeyOf en zh) = Inr e"
  shows "snd (buildSuggestionsUrl en zh cache)
           = evictOldest cache @ [(cacheKeyOf en zh, urlOf e)]"
proof -
  have "cacheKeyOf en zh \<notin> fst ` set (evictOldest cache)"
    using assms(1) evictOldest_subset [of cache] by (auto simp: map_of_None_keys)
  then show ?thesis using assms
    by (simp add: buildSuggestionsUrl_def Let_def update_absent)
qed

lemma buildSuggestionsUrl_cache_same:
  "map_of cache (cacheKeyOf en zh) \<noteq> None \<or> encodeURIComponent (cacheKeyOf en zh) = Inl e
     \<Longrightarrow> snd (buildSuggestionsUrl en zh cache) = cache"
  by (auto simp: buildSuggestionsUrl_def Let_def split: option.splits sum.splits)

lemma buildSuggestionsUrl_cacheOk:
  assumes "cacheOk cache"
  shows "cacheOk (snd (buildSuggestionsUrl en zh cache))"
proof (cases "map_of cache (cacheKeyOf en zh)")
  case (Some u)
  then show ?thesis using assms by (simp add: buildSuggestionsUrl_cache_same)
next
  case None
  show ?thesis
  proof (cases "encodeURIComponent (cacheKeyOf en zh)")
    case (Inl e)
    then show ?thesis using assms buildSuggestionsUrl_cache_same [of cache en zh e] by simp
  next
    case (Inr e)
    have ok: "cacheOk (evictOldest cache)" using assms by (rule evictOldest_cacheOk)
    have "cacheKeyOf en zh \<notin> fst ` set (evictOldest cache)"
      using None evictOldest_subset [of cache] by (auto simp: map_of_None_keys)
    then show ?thesis using ok Inr
      by (auto simp: buildSuggestionsUrl_cache_new [OF None Inr] cacheOk_def)
  qed
qed

lemma buildAll_Cons:
  "fst (buildAll ((en, zh) # calls) cache)
     = fst (buildSuggestionsUrl en zh cache)
       # fst (buildAll calls (snd (buildSuggestionsUrl en zh cache)))"
  "snd (buildAll ((en, zh) # calls) cache)
     = snd (buildAll calls (snd (buildSuggestionsUrl en zh cache)))"
  by (simp_all add: Let_def)

lemma buildAll_results:
  "cacheOk cache \<Longrightarrow> fst (buildAll calls cache) = map (\<lambda>(en, zh). locatorOf en zh) calls"
proof (induction calls arbitrary: cache)
  case Nil
  then show ?case by simp
next
  case (Cons call calls)
  obtain en zh where call: "call = (en, zh)" by (cases call)
  have ok: "cacheOk (snd (buildSuggestionsUrl en zh cache))"
    using Cons.prems by (rule buildSuggestionsUrl_cacheOk)
  show ?case
    using Cons.IH [OF ok] buildSuggestionsUrl_result [OF Cons.prems, of en zh]
    by (simp add: call Let_def)
qed

lemma locatorOf_suffix:
  "locatorOf en zh = Inr u \<Longrightarrow> \<exists>p. u = p @ ascii ''&cb=_callbacks____raycast''"
proof -
  assume a: "locatorOf en zh = Inr u"
  then obtain e where "u = urlOf e"
    by (cases "encodeURIComponent (cacheKeyOf en zh)") (auto simp: locatorOf_def)
  then have "u = (ascii ''https://inputtools.google.com/request?text='' @ e @
     ascii ''&itc=yue-hant-t-i0-und&num=13&cp=0&cs=1&ie=utf-8&oe=utf-8&app=jsapi'') @ ascii ''&cb=_callbacks____raycast''"
    by (simp add: urlOf_def callbackName_def ascii_def)
  then show ?thesis by blast
qed

subsection \<open>Blank queries\<close>

text \<open>
  Claim C2 says that the builder fails with \<open>InvalidInput\<close> for a query that is empty
  after trimming. The builder has no such check: for the query of one space it returns a
  locator, with and without a retained context, and also for the empty query. The check
  is made by the caller (\<open>suggestionsUrl\<close>).
\<close>

theorem buildSuggestionsUrl_blank_query_returns:
  "trim (ascii '' '') = []
   \<and> buildSuggestionsUrl (ascii '' '') None []
       = (Inr (urlOf (ascii ''%20'')), [(ascii '' '', urlOf (ascii ''%20''))])
   \<and> fst (buildSuggestionsUrl (ascii '' '') (Some [0x4F60]) [])
       = Inr (urlOf (ascii ''%7C%E4%BD%A0%2C%20''))
   \<and> fst (buildSuggestionsUrl [] None []) = Inr (urlOf [])"
proof -
  have a: "buildSuggestionsUrl (ascii '' '') None []
       = (Inr (urlOf (ascii ''%20'')), [(ascii '' '', urlOf (ascii ''%20''))])"
    using encode_space
    by (simp add: buildSuggestionsUrl_def cacheKeyOf_def Let_def evictOldest_def
        MAX_CACHE_SIZE_def)
  have b: "fst (buildSuggestionsUrl (ascii '' '') (Some [0x4F60]) [])
       = Inr (urlOf (ascii ''%7C%E4%BD%A0%2C%20''))"
    using encode_retained_space by (simp add: buildSuggestionsUrl_def Let_def)
  have c: "fst (buildSuggestionsUrl [] None []) = Inr (urlOf [])"
    by (simp add: buildSuggestionsUrl_def cacheKeyOf_def Let_def)
  show ?thesis using a b c trim_space by simp
qed

text \<open>
  Claim C2 as amended. For every query that is empty after trimming, every retained
  context that is absent or well formed, and every cache the builder has built, the
  builder does not fail: it returns the locator of the percent-encoded canonical key.
\<close>

theorem buildSuggestionsUrl_blank_query:
  assumes "trim en = []" and "case zh of None \<Rightarrow> True | Some z \<Rightarrow> wellFormed z"
    and "cacheOk cache"
  shows "\<exists>e. encodeURIComponent (cacheKeyOf en zh) = Inr e
             \<and> fst (buildSuggestionsUrl en zh cache) = Inr (urlOf e)"
proof -
  have "wellFormed (cacheKeyOf en zh)"
    using assms(1,2) by (intro cacheKeyOf_wellFormed blank_wellFormed)
  then obtain e where e: "encodeURIComponent (cacheKeyOf en zh) = Inr e"
    using encodeURIComponent_wellFormed by blast
  then have "fst (buildSuggestionsUrl en zh cache) = Inr (urlOf e)"
    using buildSuggestionsUrl_result [OF assms(3), of en zh] by (simp add: locatorOf_def)
  then show ?thesis using e by blast
qed

theorem buildSuggestionsUrl_blank_query_witness:
  "trim (ascii '' '') = [] \<and> wellFormed [0x4F60] \<and> cacheOk []
   \<and> (\<exists>e. encodeURIComponent (cacheKeyOf (ascii '' '') (Some [0x4F60])) = Inr e
          \<and> fst (buildSuggestionsUrl (ascii '' '') (Some [0x4F60]) []) = Inr (urlOf e))"
proof -
  have w: "case Some [0x4F60::code_unit] of None \<Rightarrow> True | Some z \<Rightarrow> wellFormed z"
    by (simp add: isHighSurrogate_def isLowSurrogate_def)
  show ?thesis
    using buildSuggestionsUrl_blank_query [OF trim_space w cacheOk_empty] trim_space w cacheOk_empty
    by simp
qed

subsection \<open>Determinism\<close>

text \<open>
  Claim C10. In every sequence of calls of the builder that starts with the empty cache,
  two calls with the same arguments return the same result, whatever was looked up,
  stored and evicted in between, and every locator returned ends with the same
  \<open>cb\<close> parameter.
\<close>

theorem buildSuggestionsUrl_deterministic:
  "(\<forall>i j. i < length calls \<and> j < length calls \<and> calls ! i = calls ! j
        \<longrightarrow> fst (buildAll calls []) ! i = fst (buildAll calls []) ! j)
   \<and> (\<forall>u. Inr u \<in> set (fst (buildAll calls []))
        \<longrightarrow> (\<exists>p. u = p @ ascii ''&cb=_callbacks____raycast''))"
proof -
  have rs: "fst (buildAll calls []) = map (\<lambda>(en, zh). locatorOf en zh) calls"
    using cacheOk_empty by (rule buildAll_results)
  have "\<And>u. Inr u \<in> set (fst (buildAll calls [])) \<Longrightarrow> \<exists>p. u = p @ ascii ''&cb=_callbacks____raycast''"
  proof -
    fix u assume "Inr u \<in> set (fst (buildAll calls []))"
    then obtain en zh where "locatorOf en zh = Inr u" unfolding rs by auto
    then show "\<exists>p. u = p @ ascii ''&cb=_callbacks____raycast''" by (rule locatorOf_suffix)
  qed
  then show ?thesis unfolding rs by simp
qed

theorem buildSuggestionsUrl_deterministic_witness:
  "fst (buildAll [(ascii ''nei'', None), (ascii ''nei'', None)] []) ! 0
     = fst (buildAll [(ascii ''nei'', None), (ascii ''nei'', None)] []) ! 1
   \<and> Inr (urlOf (ascii ''nei'')) \<in> set (fst (buildAll [(ascii ''nei'', None), (ascii ''nei'', None)] []))
   \<and> (\<exists>p. urlOf (ascii ''nei'') = p @ ascii ''&cb=_callbacks____raycast'')"
proof -
  let ?calls = "[(ascii ''nei'', None), (ascii ''nei'', None::jsstring option)]"
  have enc: "encodeURIComponent (ascii ''nei'') = Inr (ascii ''nei'')"
    by (rule encodeURIComponent_unreserved) (simp add: ascii_def isUnreserved_def)
  have mem: "Inr (urlOf (ascii ''nei'')) \<in> set (fst (buildAll ?calls []))"
    using enc by (simp add: buildSuggestionsUrl_def cacheKeyOf_def Let_def)
  show ?thesis
    using buildSuggestionsUrl_deterministic [of ?calls] mem by auto
qed

subsection \<open>The size of the cache\<close>

text \<open>
  With keys that are not empty the cache does what its comments say: it never holds more
  than \<open>MAX_CACHE_SIZE\<close> entries, a new key at the limit replaces the oldest entry,
  and after 101 distinct keys the first is gone and the other 100 are the keys of the
  cache in the order of their insertion.
\<close>

lemma evictOldest_length:
  assumes "cacheBounded cache"
  shows "length (evictOldest cache) < MAX_CACHE_SIZE \<and> cacheBounded (evictOldest cache)"
proof (cases "length cache < MAX_CACHE_SIZE")
  case True
  then show ?thesis using assms by (simp add: evictOldest_below_limit)
next
  case False
  then have full: "length cache \<ge> MAX_CACHE_SIZE" by simp
  then obtain k u rest where c: "cache = (k, u) # rest"
    by (cases cache) (auto simp: MAX_CACHE_SIZE_def)
  have k: "k \<noteq> []" using assms c by (auto simp: cacheBounded_def)
  have "evictOldest cache = rest"
    using full c k assms by (intro evictOldest_at_limit) (auto simp: cacheBounded_def)
  then show ?thesis using assms c by (auto simp: cacheBounded_def)
qed

lemma buildSuggestionsUrl_bounded:
  assumes "cacheBounded cache" and "cacheKeyOf en zh \<noteq> []"
  shows "cacheBounded (snd (buildSuggestionsUrl en zh cache))"
proof (cases "map_of cache (cacheKeyOf en zh)")
  case (Some u)
  then show ?thesis using assms by (simp add: buildSuggestionsUrl_cache_same)
next
  case None
  show ?thesis
  proof (cases "encodeURIComponent (cacheKeyOf en zh)")
    case (Inl e)
    then show ?thesis using assms buildSuggestionsUrl_cache_same [of cache en zh e] by simp
  next
    case (Inr e)
    have "cacheKeyOf en zh \<notin> fst ` set (evictOldest cache)"
      using None evictOldest_subset [of cache] by (auto simp: map_of_None_keys)
    then show ?thesis using evictOldest_length [OF assms(1)] assms(2)
      by (auto simp: buildSuggestionsUrl_cache_new [OF None Inr] cacheBounded_def)
  qed
qed

lemma buildSuggestionsUrl_fifo:
  assumes "cacheBounded cache" and "length cache = MAX_CACHE_SIZE"
    and "map_of cache (cacheKeyOf en zh) = None"
    and "encodeURIComponent (cacheKeyOf en zh) = Inr e"
  shows "snd (buildSuggestionsUrl en zh cache) = tl cache @ [(cacheKeyOf en zh, urlOf e)]"
proof -
  obtain k u rest where c: "cache = (k, u) # rest"
    using assms(2) by (cases cache) (auto simp: MAX_CACHE_SIZE_def)
  have "evictOldest cache = rest"
    using assms(1,2) c by (intro evictOldest_at_limit) (auto simp: cacheBounded_def)
  then show ?thesis using buildSuggestionsUrl_cache_new [OF assms(3,4)] c by simp
qed

lemma buildSuggestionsUrl_keys:
  assumes "cacheBounded cache" and "k \<noteq> []" and "k \<notin> fst ` set cache" and "wellFormed k"
  shows "map fst (snd (buildSuggestionsUrl k None cache))
           = (if length cache < MAX_CACHE_SIZE then map fst cache else tl (map fst cache)) @ [k]"
proof -
  have key: "cacheKeyOf k None = k" by (simp add: cacheKeyOf_def)
  have absent: "map_of cache (cacheKeyOf k None) = None"
    using assms(3) by (simp add: key map_of_None_keys)
  obtain e where enc: "encodeURIComponent (cacheKeyOf k None) = Inr e"
    using assms(4) encodeURIComponent_wellFormed key by metis
  note new = buildSuggestionsUrl_cache_new [OF absent enc]
  show ?thesis
  proof (cases "length cache < MAX_CACHE_SIZE")
    case True
    then show ?thesis using new by (simp add: evictOldest_below_limit key)
  next
    case False
    then have full: "length cache = MAX_CACHE_SIZE" using assms(1) by (simp add: cacheBounded_def)
    then obtain k0 u rest where c: "cache = (k0, u) # rest"
      by (cases cache) (auto simp: MAX_CACHE_SIZE_def)
    have "evictOldest cache = rest"
      using full c assms(1) by (intro evictOldest_at_limit) (auto simp: cacheBounded_def)
    then show ?thesis using new False c by (simp add: key)
  qed
qed

lemma buildAll_keys_fifo:
  assumes "cacheBounded cache" and "distinct ks" and "[] \<notin> set ks"
    and "set ks \<inter> fst ` set cache = {}" and "\<forall>k \<in> set ks. wellFormed k"
  shows "map fst (snd (buildAll (map (\<lambda>k. (k, None)) ks) cache))
           = drop (length cache + length ks - MAX_CACHE_SIZE) (map fst cache @ ks)"
  using assms
proof (induction ks arbitrary: cache)
  case Nil
  then show ?case by (simp add: cacheBounded_def)
next
  case (Cons k ks)
  let ?c = "snd (buildSuggestionsUrl k None cache)"
  have kne: "k \<noteq> []" and knew: "k \<notin> fst ` set cache" and kwf: "wellFormed k"
    using Cons.prems by auto
  have keys: "map fst ?c
      = (if length cache < MAX_CACHE_SIZE then map fst cache else tl (map fst cache)) @ [k]"
    using Cons.prems(1) kne knew kwf by (rule buildSuggestionsUrl_keys)
  have b: "cacheBounded ?c"
    using Cons.prems(1) kne by (intro buildSuggestionsUrl_bounded) (simp_all add: cacheKeyOf_def)
  have sub: "fst ` set ?c \<subseteq> insert k (fst ` set cache)"
  proof -
    have "set (map fst ?c) \<subseteq> insert k (set (map fst cache))"
      unfolding keys using set_subset_Cons [of "tl (map fst cache)" "hd (map fst cache)"]
      by (cases "map fst cache") auto
    then show ?thesis by simp
  qed
  have disj: "set ks \<inter> fst ` set ?c = {}"
    using Cons.prems(2,4) sub by auto
  have IH: "map fst (snd (buildAll (map (\<lambda>k. (k, None)) ks) ?c))
              = drop (length ?c + length ks - MAX_CACHE_SIZE) (map fst ?c @ ks)"
    using b Cons.prems(2,3,5) disj by (intro Cons.IH) auto
  have len: "length ?c = length (map fst ?c)" by simp
  show ?case
  proof (cases "length cache < MAX_CACHE_SIZE")
    case True
    then have "length ?c = length cache + 1" unfolding len keys by simp
    then show ?thesis using IH True by (simp add: Let_def keys)
  next
    case False
    then have full: "length cache = MAX_CACHE_SIZE"
      using Cons.prems(1) by (simp add: cacheBounded_def)
    then have ne: "map fst cache \<noteq> []" by (auto simp: MAX_CACHE_SIZE_def)
    have l: "length ?c = MAX_CACHE_SIZE" unfolding len keys using False full ne
      by (simp add: MAX_CACHE_SIZE_def)
    have "drop (Suc (length ks)) (map fst cache @ k # ks)
            = drop (length ks) (tl (map fst cache) @ k # ks)"
      using ne by (cases "map fst cache") simp_all
    then show ?thesis using IH False full l by (simp add: Let_def keys)
  qed
qed

lemma buildAll_101_keys:
  assumes "distinct ks" and "[] \<notin> set ks" and "\<forall>k \<in> set ks. wellFormed k"
    and "length ks = 101"
  shows "map fst (snd (buildAll (map (\<lambda>k. (k, None)) ks) [])) = tl ks
         \<and> hd ks \<notin> fst ` set (snd (buildAll (map (\<lambda>k. (k, None)) ks) []))"
proof -
  have b: "cacheBounded []" by (simp add: cacheBounded_def)
  have keys: "map fst (snd (buildAll (map (\<lambda>k. (k, None)) ks) [])) = tl ks"
    using buildAll_keys_fifo [OF b assms(1,2) _ assms(3)] assms(4)
    by (simp add: MAX_CACHE_SIZE_def drop_Suc)
  obtain k rest where ks: "ks = k # rest" using assms(4) by (cases ks) auto
  have "hd ks \<notin> set (tl ks)" using assms(1) ks by simp
  then have "hd ks \<notin> set (map fst (snd (buildAll (map (\<lambda>k. (k, None)) ks) [])))"
    unfolding keys .
  moreover have "set (map fst (snd (buildAll (map (\<lambda>k. (k, None)) ks) [])))
      = fst ` set (snd (buildAll (map (\<lambda>k. (k, None)) ks) []))"
    by (rule set_map)
  ultimately have "hd ks \<notin> fst ` set (snd (buildAll (map (\<lambda>k. (k, None)) ks) []))"
    by (rule subst [where P = "\<lambda>S. hd ks \<notin> S", rotated])
  then show ?thesis using keys by blast
qed

lemma buildSuggestionsUrl_key:
  "buildSuggestionsUrl en zh cache = buildSuggestionsUrl (cacheKeyOf en zh) None cache"
  by (simp add: buildSuggestionsUrl_def cacheKeyOf_def)

lemma buildAll_key:
  "snd (buildAll calls cache)
     = snd (buildAll (map (\<lambda>k. (k, None)) (map (\<lambda>(en, zh). cacheKeyOf en zh) calls)) cache)"
proof (induction calls arbitrary: cache)
  case Nil
  then show ?case by simp
next
  case (Cons c calls)
  obtain en zh where c: "c = (en, zh)" by (cases c)
  show ?case
    using Cons.IH [of "snd (buildSuggestionsUrl en zh cache)"]
      buildSuggestionsUrl_key [of en zh cache]
    by (simp add: c Let_def)
qed

lemma buildAll_bounded:
  assumes "cacheBounded cache" and "\<forall>(en, zh) \<in> set calls. cacheKeyOf en zh \<noteq> []"
  shows "cacheBounded (snd (buildAll calls cache))"
  using assms
proof (induction calls arbitrary: cache)
  case Nil
  then show ?case by simp
next
  case (Cons c calls)
  obtain en zh where c: "c = (en, zh)" by (cases c)
  have "cacheBounded (snd (buildSuggestionsUrl en zh cache))"
    using Cons.prems c by (intro buildSuggestionsUrl_bounded) auto
  then have "cacheBounded (snd (buildAll calls (snd (buildSuggestionsUrl en zh cache))))"
    using Cons.prems(2) by (intro Cons.IH) auto
  then show ?case by (simp add: c Let_def)
qed

lemma replicate_keys_distinct:
  "distinct (map (\<lambda>i. replicate i (c::code_unit)) [m..<n])"
  by (simp add: distinct_map inj_on_def)

text \<open>
  The component calls the builder only with a query part that is not empty after
  trimming, so the keys of its cache are never empty and its cache stays within the
  limit.
\<close>

lemma cacheKeyOf_nonempty: "en \<noteq> [] \<Longrightarrow> cacheKeyOf en zh \<noteq> []"
  by (simp add: cacheKeyOf_def split: option.splits)

lemma suggestionsUrl_cacheBounded:
  assumes "cacheBounded cache"
  shows "cacheBounded (snd (snd (suggestionsUrl debounced re cache)))"
proof -
  have "cacheBounded (snd (buildSuggestionsUrl en zh cache))" if "trim en \<noteq> []" for en zh
  proof -
    have "en \<noteq> []" using that by (auto simp: trim_def)
    then show ?thesis using assms by (intro buildSuggestionsUrl_bounded cacheKeyOf_nonempty)
  qed
  then show ?thesis using assms by (simp add: suggestionsUrl_def case_prod_beta Let_def)
qed

lemma debounceElapsed_cacheBounded:
  assumes "cacheBounded (cacheState st)" and "debounceElapsed st = Inr st'"
  shows "cacheBounded (cacheState st')"
  using assms suggestionsUrl_cacheBounded [OF assms(1), of "searchText st" "regexState st"]
  by (auto simp: debounceElapsed_def case_prod_beta split: if_splits sum.splits)

lemma handleSearchTextChange_cacheState:
  "cacheState (handleSearchTextChange st s) = cacheState st"
  by (simp add: handleSearchTextChange_def handleNumericAction_def handleSuggestionSelect_def
      goToNextPage_def goToPreviousPage_def case_prod_beta Let_def split: option.splits)

text \<open>
  Claim C9, for the keys that the component passes: keys that are not empty. In every
  sequence of calls of the builder that starts with the empty cache, the cache never
  holds more than 100 entries; a call with a new key on a full cache removes the entry
  that was inserted first and appends the new one; a call with a key that is in the
  cache leaves the cache and its order as they are (first in, first out, not least
  recently used); and after 101 calls with distinct keys the key of the first call is
  gone and the keys of the cache are those of the other 100 calls in their order. The
  debounce step of the component keeps the cache within the limit. The witness is the
  sequence of the queries of 1, 2, ..., 101 letters \<open>a\<close>.
\<close>

theorem urlCache_bounded_fifo:
  assumes "\<forall>(en, zh) \<in> set calls. cacheKeyOf en zh \<noteq> []"
  shows "MAX_CACHE_SIZE = 100
     \<and> length (snd (buildAll calls [])) \<le> MAX_CACHE_SIZE
     \<and> (length (snd (buildAll calls [])) = MAX_CACHE_SIZE
          \<and> map_of (snd (buildAll calls [])) (cacheKeyOf en zh) = None
          \<and> encodeURIComponent (cacheKeyOf en zh) = Inr e
        \<longrightarrow> snd (buildSuggestionsUrl en zh (snd (buildAll calls [])))
              = tl (snd (buildAll calls [])) @ [(cacheKeyOf en zh, urlOf e)])
     \<and> (map_of (snd (buildAll calls [])) (cacheKeyOf en zh) = Some u
        \<longrightarrow> snd (buildSuggestionsUrl en zh (snd (buildAll calls []))) = snd (buildAll calls []))
     \<and> (length calls = 101 \<and> distinct (map (\<lambda>(en, zh). cacheKeyOf en zh) calls)
          \<and> (\<forall>(en, zh) \<in> set calls. wellFormed (cacheKeyOf en zh))
        \<longrightarrow> map fst (snd (buildAll calls []))
              = tl (map (\<lambda>(en, zh). cacheKeyOf en zh) calls)
            \<and> hd (map (\<lambda>(en, zh). cacheKeyOf en zh) calls)
                \<notin> fst ` set (snd (buildAll calls [])))
     \<and> (cacheBounded (cacheState st) \<and> debounceElapsed st = Inr st'
        \<longrightarrow> length (cacheState st') \<le> MAX_CACHE_SIZE)"
proof -
  let ?cache = "snd (buildAll calls [])"
  let ?ks = "map (\<lambda>(en, zh). cacheKeyOf en zh) calls"
  have b: "cacheBounded ?cache"
    using assms by (intro buildAll_bounded) (simp_all add: cacheBounded_def)
  have 1: "length ?cache \<le> MAX_CACHE_SIZE" using b by (simp add: cacheBounded_def)
  have 2: "snd (buildSuggestionsUrl en zh ?cache) = tl ?cache @ [(cacheKeyOf en zh, urlOf e)]"
    if "length ?cache = MAX_CACHE_SIZE" "map_of ?cache (cacheKeyOf en zh) = None"
      "encodeURIComponent (cacheKeyOf en zh) = Inr e"
    using b that by (rule buildSuggestionsUrl_fifo)
  have 3: "snd (buildSuggestionsUrl en zh ?cache) = ?cache"
    if "map_of ?cache (cacheKeyOf en zh) = Some u"
    using that by (simp add: buildSuggestionsUrl_cache_same)
  have 4: "map fst ?cache = tl ?ks \<and> hd ?ks \<notin> fst ` set ?cache"
    if h: "length calls = 101" "distinct ?ks" "\<forall>(en, zh) \<in> set calls. wellFormed (cacheKeyOf en zh)"
  proof -
    have ne: "[] \<notin> set ?ks" using assms by auto
    have wf: "\<forall>k \<in> set ?ks. wellFormed k" using h(3) by auto
    have len: "length ?ks = 101" using h(1) by simp
    have e: "?cache = snd (buildAll (map (\<lambda>k. (k, None)) ?ks) [])" by (rule buildAll_key)
    show ?thesis unfolding e using h(2) ne wf len by (rule buildAll_101_keys)
  qed
  have 5: "length (cacheState st') \<le> MAX_CACHE_SIZE"
    if "cacheBounded (cacheState st)" "debounceElapsed st = Inr st'"
    using debounceElapsed_cacheBounded [OF that] by (simp add: cacheBounded_def)
  show ?thesis using 1 2 3 4 5 by (simp add: MAX_CACHE_SIZE_def)
qed

theorem urlCache_bounded_fifo_witness:
  "[] \<notin> set (map (\<lambda>i. replicate i (0x61::code_unit)) [1..<102])
   \<and> length (map (\<lambda>i. (replicate i (0x61::code_unit), None::jsstring option)) [1..<102]) = 101
   \<and> length (snd (buildAll (map (\<lambda>i. (replicate i 0x61, None)) [1..<102]) [])) \<le> 100
   \<and> map fst (snd (buildAll (map (\<lambda>i. (replicate i 0x61, None)) [1..<102]) []))
       = map (\<lambda>i. replicate i 0x61) [2..<102]
   \<and> replicate 1 0x61 \<notin> fst ` set (snd (buildAll (map (\<lambda>i. (replicate i 0x61, None)) [1..<102]) []))"
proof -
  let ?calls = "map (\<lambda>i. (replicate i (0x61::code_unit), None::jsstring option)) [1..<102]"
  have keys: "map (\<lambda>(en, zh). cacheKeyOf en zh) ?calls = map (\<lambda>i. replicate i 0x61) [1..<102]"
    by (simp add: cacheKeyOf_def comp_def)
  have ne: "\<forall>(en, zh) \<in> set ?calls. cacheKeyOf en zh \<noteq> []"
    by (auto simp: cacheKeyOf_def)
  have len: "length ?calls = 101" by simp
  have d: "distinct (map (\<lambda>(en, zh). cacheKeyOf en zh) ?calls)"
    unfolding keys by (rule replicate_keys_distinct)
  have wf: "\<forall>(en, zh) \<in> set ?calls. wellFormed (cacheKeyOf en zh)"
    by (auto simp: cacheKeyOf_def isUnreserved_def list_all_iff
        intro!: wellFormed_no_surrogates unreserved_not_surrogate)
  have "[1..<102] = 1 # [Suc 1..<102]" by (rule upt_conv_Cons) simp
  moreover have "Suc 1 = 2" by simp
  ultimately have u: "[1..<102] = 1 # [2..<102]" by (simp only:)
  have tl: "tl (map (\<lambda>i. replicate i (0x61::code_unit)) [1..<102])
              = map (\<lambda>i. replicate i 0x61) [2..<102]"
    by (simp only: u list.map list.sel)
  have hd: "hd (map (\<lambda>i. replicate i (0x61::code_unit)) [1..<102]) = replicate 1 0x61"
    by (simp only: u list.map list.sel)
  note inst = urlCache_bounded_fifo [OF ne]
  have a: "length (snd (buildAll ?calls [])) \<le> 100" using inst by simp
  have b: "map fst (snd (buildAll ?calls [])) = map (\<lambda>i. replicate i 0x61) [2..<102]
      \<and> replicate 1 0x61 \<notin> fst ` set (snd (buildAll ?calls []))"
    using inst len d wf unfolding keys tl hd by blast
  have k: "[] \<notin> set (map (\<lambda>i. replicate i (0x61::code_unit)) [1..<102])" by auto
  show ?thesis using k len a b by blast
qed

text \<open>
  The condition on the keys is needed. An empty key at the front of the cache is never
  evicted, since \<open>if (firstKey)\<close> takes the empty string for a missing key, and every
  later key is then appended: after the queries of 0, 1, ..., 100 letters \<open>a\<close>, built in
  this order on the empty cache, the cache holds 101 entries and the empty key is one
  of them. The component never passes an empty query.
\<close>

lemma buildAll_empty_key_first:
  assumes "distinct ks" and "set ks \<inter> fst ` set (([], u) # rest) = {}"
    and "\<forall>k \<in> set ks. list_all isUnreserved k"
  shows "snd (buildAll (map (\<lambda>k. (k, None)) ks) (([], u) # rest))
           = (([], u) # rest) @ map (\<lambda>k. (k, urlOf k)) ks"
  using assms
proof (induction ks arbitrary: rest)
  case Nil
  then show ?case by simp
next
  case (Cons k ks)
  have key: "cacheKeyOf k None = k" by (simp add: cacheKeyOf_def)
  have absent: "map_of (([], u) # rest) (cacheKeyOf k None) = None"
    using Cons.prems(2) unfolding key by (subst map_of_None_keys) auto
  have enc: "encodeURIComponent (cacheKeyOf k None) = Inr k"
    using Cons.prems(3) unfolding key by (simp add: encodeURIComponent_unreserved)
  have step: "snd (buildSuggestionsUrl k None (([], u) # rest))
                = ([], u) # (rest @ [(k, urlOf k)])"
    using buildSuggestionsUrl_cache_new [OF absent enc]
    by (simp add: evictOldest_empty_key_first key)
  have "snd (buildAll (map (\<lambda>k. (k, None)) ks) (([], u) # (rest @ [(k, urlOf k)])))
          = (([], u) # (rest @ [(k, urlOf k)])) @ map (\<lambda>k. (k, urlOf k)) ks"
    using Cons.prems by (intro Cons.IH) auto
  then show ?case using step by (simp add: Let_def)
qed

lemma buildAll_empty_key_exceeds_limit:
  "length (snd (buildAll (map (\<lambda>i. (replicate i 0x61, None)) [0..<101]) [])) = 101
   \<and> [] \<in> fst ` set (snd (buildAll (map (\<lambda>i. (replicate i 0x61, None)) [0..<101]) []))
   \<and> MAX_CACHE_SIZE = 100"
proof -
  let ?ks = "map (\<lambda>i. replicate i (0x61::code_unit)) [1..<101]"
  have split: "map (\<lambda>i. (replicate i (0x61::code_unit), None::jsstring option)) [0..<101]
                 = ([], None) # map (\<lambda>k. (k, None)) ?ks"
    by (simp add: upt_conv_Cons [of 0] comp_def)
  have first: "snd (buildSuggestionsUrl [] None []) = [([], urlOf [])]"
    by (simp add: buildSuggestionsUrl_def cacheKeyOf_def evictOldest_def MAX_CACHE_SIZE_def
        Let_def)
  have d: "distinct ?ks" by (rule replicate_keys_distinct)
  have n: "set ?ks \<inter> fst ` set [([], urlOf [])] = {}" by auto
  have un: "\<forall>k \<in> set ?ks. list_all isUnreserved k"
    by (auto simp: list_all_iff isUnreserved_def)
  have "snd (buildAll (map (\<lambda>k. (k, None)) ?ks) [([], urlOf [])])
          = [([], urlOf [])] @ map (\<lambda>k. (k, urlOf k)) ?ks"
    using buildAll_empty_key_first [OF d n un] by simp
  then have "snd (buildAll (map (\<lambda>i. (replicate i 0x61, None)) [0..<101]) [])
          = [([], urlOf [])] @ map (\<lambda>k. (k, urlOf k)) ?ks"
    unfolding split by (simp add: Let_def first)
  then show ?thesis by (simp add: MAX_CACHE_SIZE_def)
qed

section \<open>Properties of the response decoder\<close>

lemmas lex_defs = ascii_def isJsonWhiteSpace_def isDigit_def isNumberUnit_def emit_def
  validNumber_def validFraction_def validExponent_def hex4_def hexValue_def escapeOf_def

lemmas parse_defs = JSON_parse_def pstep_def openValue_def closeArray_def closeObject_def
  readKey_def

lemmas match_defs = jsonpPayload_def groupMatches_def isLineTerminator_def

subsection \<open>The envelope\<close>

text \<open>
  The fallback pattern never matches a text that the strict pattern does not match, and
  a text made of a prefix without \<open>(\<close>, a \<open>(\<close>, a payload without line terminators
  and a final \<open>)\<close> has that payload extracted.
\<close>

lemma lazyPrefix_None: "jsonpMatch s = None \<Longrightarrow> lazyPrefix s = None"
  by (induction s) (auto split: if_splits)

lemma jsonpAltMatch_redundant: "jsonpMatch s = None \<Longrightarrow> jsonpAltMatch s = None"
proof (induction s)
  case Nil
  then show ?case by simp
next
  case (Cons c cs)
  have "lazyPrefix (c # cs) = None" using Cons.prems by (rule lazyPrefix_None)
  moreover have "jsonpMatch cs = None" using Cons.prems by (simp split: if_splits)
  ultimately show ?case using Cons.IH by simp
qed

lemma jsonpPayload_eq: "jsonpPayload s = jsonpMatch s"
  by (cases "jsonpMatch s") (simp_all add: jsonpPayload_def jsonpAltMatch_redundant)



lemma jsonpMatch_wrapped:
  assumes "0x28 \<notin> set callback" and "payload \<noteq> []"
    and "list_all (\<lambda>u. \<not> isLineTerminator u) payload"
  shows "jsonpMatch (callback @ [0x28] @ payload @ [0x29]) = Some payload"
  using assms(1)
proof (induction callback)
  case Nil
  have "groupMatches (payload @ [0x29])"
    using assms(2,3) by (simp add: groupMatches_def)
  then show ?case by simp
next
  case (Cons c cs)
  then show ?case by simp
qed

subsection \<open>Concrete responses\<close>

lemma example_parse:
  "JSON_parse example_payload =
     Some (JArray (JString (ascii ''SUCCESS'')
       # JArray [JArray [JString (ascii ''m''),
                         JArray [JString [0x5514], JString [0x4E94], JString [0x5348]],
                         JArray [], JObject []]]
       # []))"
  by (simp add: example_payload_def lex_defs parse_defs)

lemma example_envelope:
  "jsonpPayload (ascii ''/*API*/_callbacks____x('' @ example_payload @ ascii '')'')
     = Some example_payload"
  by (simp add: match_defs example_payload_def ascii_def)

lemma empty_data_parse:
  "JSON_parse (ascii ''[\"SUCCESS\",[]]'')
     = Some (JArray (JString (ascii ''SUCCESS'') # JArray [] # []))"
  by (simp add: lex_defs parse_defs)






lemma line_terminator_payload:
  "JSON_parse (ascii ''[\"SUCCESS\",'' @ [0x0A] @ ascii ''[[\"m\",[\"a\"]]]]'')
     = Some (JArray [JString (ascii ''SUCCESS''),
                     JArray [JArray [JString (ascii ''m''), JArray [JString (ascii ''a'')]]]])
   \<and> jsonpPayload (ascii ''cb([\"SUCCESS\",'' @ [0x0A] @ ascii ''[[\"m\",[\"a\"]]]])'') = None"
  by (simp add: match_defs lex_defs parse_defs)

lemma parenthesis_in_prefix:
  "jsonpPayload (ascii ''/*API(v1)*/_callbacks____x([\"SUCCESS\",[]])'')
     = Some (ascii ''v1)*/_callbacks____x([\"SUCCESS\",[]]'')
   \<and> JSON_parse (ascii ''v1)*/_callbacks____x([\"SUCCESS\",[]]'') = None"
  by (simp add: match_defs lex_defs parse_defs)


lemma duplicate_member:
  "JSON_parse (ascii ''{\"a\":1,\"b\":2,\"a\":3}'')
     = Some (JObject [(ascii ''a'', JNumber (ascii ''3'')), (ascii ''b'', JNumber (ascii ''2''))])"
  by (simp add: lex_defs parse_defs)


subsection \<open>Decoding\<close>

lemma collectSuggestions_eq:
  "collectSuggestions data
     = concat (map (\<lambda>g. elements (elements g ! 1)) (filter validGroup (elements data)))"
proof -
  have "concat (map groupCandidates gs)
          = concat (map (\<lambda>g. elements (elements g ! 1)) (filter validGroup gs))" for gs
    by (induction gs) (auto simp: groupCandidates_def validGroup_def)
  then show ?thesis by (cases data) (simp_all add: collectSuggestions_def)
qed

lemma parseSuggestionsResponse_extracted:
  assumes "jsonpPayload response = Some payload"
    and "JSON_parse payload = Some (JArray (JString (ascii ''SUCCESS'') # data # rest))"
  shows "parseSuggestionsResponse response = Inr (collectSuggestions data)"
  using assms by (simp add: parseSuggestionsResponse_def)

lemma JSON_parse_nonempty: "JSON_parse payload = Some v \<Longrightarrow> payload \<noteq> []"
  by (auto simp: JSON_parse_def)

text \<open>
  Claim C3 says that every callback-wrapped JSON array whose element 0 is the string
  \<open>"SUCCESS"\<close> is decoded to its candidates. It is not when the array is written with
  a line break, which no pattern of the decoder matches: the response
  \<open>cb(["SUCCESS",\<close> LF \<open>[["m",["a"]]]])\<close> is rejected as a malformed envelope. Nor is
  it when the prefix holds an opening parenthesis, since the group then starts there:
  \<open>/*API(v1)*/_callbacks____x(["SUCCESS",[]])\<close> is rejected as a malformed payload.
\<close>

theorem parseSuggestionsResponse_line_terminator:
  "JSON_parse (ascii ''[\"SUCCESS\",'' @ [0x0A] @ ascii ''[[\"m\",[\"a\"]]]]'')
     = Some (JArray [JString (ascii ''SUCCESS''),
                     JArray [JArray [JString (ascii ''m''), JArray [JString (ascii ''a'')]]]])
   \<and> parseSuggestionsResponse (ascii ''cb([\"SUCCESS\",'' @ [0x0A] @ ascii ''[[\"m\",[\"a\"]]]])'')
     = Inl MalformedEnvelope
   \<and> parseSuggestionsResponse (ascii ''/*API(v1)*/_callbacks____x([\"SUCCESS\",[]])'')
     = Inl MalformedPayload"
  using line_terminator_payload parenthesis_in_prefix
  by (simp add: parseSuggestionsResponse_def)

text \<open>
  Claim C3 as amended. For every response text made of a callback prefix that holds no
  opening parenthesis, an opening parenthesis, a payload that holds no line terminator,
  and a closing parenthesis that ends the text, where the payload is the JSON text of
  an array with an element 1 whose element 0 is the string \<open>"SUCCESS"\<close>, the decoder
  returns the concatenation, in the order of the text, of the second element of every
  group of element 1 that is an array of at least two elements whose second element is
  an array; other groups are skipped. The witness decodes the round-trip example of the
  specification to its three candidates and a response with an empty data payload to
  the empty sequence.
\<close>

theorem parseSuggestionsResponse_success:
  assumes "0x28 \<notin> set callback"
    and "list_all (\<lambda>u. \<not> isLineTerminator u) payload"
    and "JSON_parse payload = Some (JArray (JString (ascii ''SUCCESS'') # data # rest))"
  shows "parseSuggestionsResponse (callback @ [0x28] @ payload @ [0x29])
           = Inr (concat (map (\<lambda>g. elements (elements g ! 1))
                            (filter validGroup (elements data))))"
proof -
  have ne: "payload \<noteq> []" using assms(3) by (rule JSON_parse_nonempty)
  have "jsonpPayload (callback @ [0x28] @ payload @ [0x29]) = Some payload"
    unfolding jsonpPayload_eq using assms(1) ne assms(2) by (rule jsonpMatch_wrapped)
  then show ?thesis
    using assms(3) by (simp add: parseSuggestionsResponse_extracted collectSuggestions_eq)
qed

theorem parseSuggestionsResponse_success_witness:
  "parseSuggestionsResponse (ascii ''/*API*/_callbacks____x('' @ example_payload @ ascii '')'')
     = Inr [JString [0x5514], JString [0x4E94], JString [0x5348]]
   \<and> parseSuggestionsResponse (ascii ''x([\"SUCCESS\",[]])'') = Inr []"
proof -
  have c1: "0x28 \<notin> set (ascii ''/*API*/_callbacks____x'')" by (simp add: ascii_def)
  have p1: "list_all (\<lambda>u. \<not> isLineTerminator u) example_payload"
    by (simp add: example_payload_def ascii_def isLineTerminator_def)
  have r1: "ascii ''/*API*/_callbacks____x'' @ [0x28] @ example_payload @ [0x29]
              = ascii ''/*API*/_callbacks____x('' @ example_payload @ ascii '')''"
    by (simp add: ascii_def)
  have c2: "0x28 \<notin> set (ascii ''x'')" by (simp add: ascii_def)
  have p2: "list_all (\<lambda>u. \<not> isLineTerminator u) (ascii ''[\"SUCCESS\",[]]'')"
    by (simp add: ascii_def isLineTerminator_def)
  have r2: "ascii ''x'' @ [0x28] @ ascii ''[\"SUCCESS\",[]]'' @ [0x29]
              = ascii ''x([\"SUCCESS\",[]])''"
    by (simp add: ascii_def)
  show ?thesis
    using parseSuggestionsResponse_success [OF c1 p1 example_parse]
      parseSuggestionsResponse_success [OF c2 p2 empty_data_parse]
    unfolding r1 r2 by (simp add: validGroup_def)
qed



section \<open>Properties of the input state machine\<close>

subsection \<open>The segmenter of utils.ts, unit by unit\<close>

text \<open>
  As long as \<open>lastIndex\<close> of \<open>CHINESE_REGEX\<close> is 0, which every call leaves it, the
  segmenter of utils.ts is \<open>scan\<close>: its retained part is the units of U+4E00 to U+9FFF
  in order, and a buffer that is a run of such units followed by units that are neither
  such units nor digits is returned as it is when one digit is appended.
\<close>

lemma surrogate_not_class:
  "isHighSurrogate c \<or> isLowSurrogate c \<Longrightarrow> \<not> isChineseUnit c \<and> \<not> isNumericUnit c"
  by (auto simp: isHighSurrogate_def isLowSurrogate_def isChineseUnit_def isNumericUnit_def
      word_le_nat_alt)

lemma regexTest_unit_0: "regexTest cls 0 [c] = (cls c, if cls c then 1 else 0)"
  by (simp add: regexTest_def)

lemma regexTest_unit_pos: "0 < l \<Longrightarrow> regexTest cls l [c] = (False, 0)"
  by (cases l) (simp_all add: regexTest_def)

lemma regexTest_pair:
  "\<not> cls c \<Longrightarrow> \<not> cls d \<Longrightarrow> regexTest cls l [c, d] = (False, 0)"
proof -
  assume a: "\<not> cls c" "\<not> cls d"
  have "\<not> cls ([c, d] ! i)" if "i < length [c, d]" for i
    using that a by (cases i) simp_all
  then have "find (\<lambda>i. cls ([c, d] ! i)) [l..<length [c, d]] = None"
    by (simp only: find_None_iff set_upt atLeastLessThan_iff) blast
  then show ?thesis by (simp only: regexTest_def option.case)
qed

lemma separate_forOf_unit:
  "separate_forOf ([c] # rest) \<lparr>chineseLastIndex = 0, numericLastIndex = l\<rparr> zh en =
     (if isChineseUnit c
      then separate_forOf rest \<lparr>chineseLastIndex = 0, numericLastIndex = l\<rparr> (zh @ [c]) en
      else if isNumericUnit c \<and> l = 0
      then separate_forOf rest \<lparr>chineseLastIndex = 0, numericLastIndex = 1\<rparr> zh en
      else separate_forOf rest \<lparr>chineseLastIndex = 0, numericLastIndex = 0\<rparr> zh (en @ [c]))"
  by (cases "l = 0") (simp_all add: regexTest_unit_0 regexTest_unit_pos)

lemma separate_forOf_pair:
  "isHighSurrogate c \<Longrightarrow> isLowSurrogate d \<Longrightarrow>
   separate_forOf ([c, d] # rest) \<lparr>chineseLastIndex = 0, numericLastIndex = l\<rparr> zh en =
     separate_forOf rest \<lparr>chineseLastIndex = 0, numericLastIndex = 0\<rparr> zh (en @ [c, d])"
  using surrogate_not_class [of c] surrogate_not_class [of d]
  by (simp add: regexTest_pair)

lemma scan_pair:
  "isHighSurrogate c \<Longrightarrow> isLowSurrogate d \<Longrightarrow>
   scan l (c # d # cs) zh en = scan 0 cs zh (en @ [c, d])"
  using surrogate_not_class [of c] surrogate_not_class [of d] by simp

lemma separate_forOf_scan:
  "separate_forOf (codePoints s) \<lparr>chineseLastIndex = 0, numericLastIndex = l\<rparr> zh en
     = (fst (scan l s zh en),
        \<lparr>chineseLastIndex = 0, numericLastIndex = snd (scan l s zh en)\<rparr>)"
proof (induction s arbitrary: l zh en rule: codePoints.induct)
  case 1
  then show ?case by simp
next
  case (2 c)
  show ?case
    by (simp add: separate_forOf_unit del: separate_forOf.simps(2))
next
  case (3 c d cs)
  show ?case
  proof (cases "isHighSurrogate c \<and> isLowSurrogate d")
    case True
    have "codePoints (c # d # cs) = [c, d] # codePoints cs" using True by simp
    then show ?thesis using True 3(1) [OF True]
      by (simp only: separate_forOf_pair scan_pair)
  next
    case False
    have cp: "codePoints (c # d # cs) = [c] # codePoints (d # cs)" using False by simp
    have sc: "scan l (c # d # cs) zh en =
       (if isChineseUnit c then scan l (d # cs) (zh @ [c]) en
        else if isNumericUnit c \<and> l = 0 then scan 1 (d # cs) zh en
        else scan 0 (d # cs) zh (en @ [c]))"
      by (rule scan.simps(2))
    show ?thesis
      unfolding cp sc separate_forOf_unit using 3(2) [OF False]
      by (simp only: if_distrib [of fst] if_distrib [of snd] split: if_splits) auto
  qed
qed

lemma regexes_eq:
  "(re :: regexes) = \<lparr>chineseLastIndex = chineseLastIndex re, numericLastIndex = numericLastIndex re\<rparr>"
  by simp

lemma separateChineseAndEnglish_scan:
  assumes "chineseLastIndex re = 0"
  shows "separateChineseAndEnglish re s
       = (fst (scan (numericLastIndex re) s [] []),
          \<lparr>chineseLastIndex = 0, numericLastIndex = snd (scan (numericLastIndex re) s [] [])\<rparr>)"
proof -
  have re: "re = \<lparr>chineseLastIndex = 0, numericLastIndex = numericLastIndex re\<rparr>"
    using assms regexes_eq [of re] by simp
  show ?thesis
  proof (cases "s = []")
    case True
    then show ?thesis using re by (simp add: separateChineseAndEnglish_def)
  next
    case False
    have "separate_forOf (codePoints s) re [] []
        = (fst (scan (numericLastIndex re) s [] []),
           \<lparr>chineseLastIndex = 0, numericLastIndex = snd (scan (numericLastIndex re) s [] [])\<rparr>)"
      by (subst re) (rule separate_forOf_scan)
    then show ?thesis using False by (simp add: separateChineseAndEnglish_def)
  qed
qed

lemma scan_chinese: "chinese (fst (scan l s zh en)) = zh @ filter isChineseUnit s"
  by (induction s arbitrary: l zh en) auto

lemma scan_append:
  "scan l (a @ b) zh en
     = scan (snd (scan l a zh en)) b (chinese (fst (scan l a zh en))) (english (fst (scan l a zh en)))"
  by (induction a arbitrary: l zh en) auto

lemma scan_all_chinese:
  "list_all isChineseUnit zs \<Longrightarrow> scan l zs zh en = (\<lparr>chinese = zh @ zs, english = en\<rparr>, l)"
  by (induction zs arbitrary: zh) auto

lemma scan_query:
  "list_all (\<lambda>c. \<not> isChineseUnit c \<and> \<not> isNumericUnit c) qs \<Longrightarrow>
     scan l qs zh en = (\<lparr>chinese = zh, english = en @ qs\<rparr>, if qs = [] then l else 0)"
  by (induction qs arbitrary: l en) auto

lemma separateChineseAndEnglish_chinese:
  "chineseLastIndex re = 0 \<Longrightarrow>
     chinese (fst (separateChineseAndEnglish re s)) = filter isChineseUnit s"
  by (simp add: separateChineseAndEnglish_scan scan_chinese)

lemma separateChineseAndEnglish_chineseLastIndex:
  "chineseLastIndex re = 0 \<Longrightarrow> chineseLastIndex (snd (separateChineseAndEnglish re s)) = 0"
  by (simp add: separateChineseAndEnglish_scan)

lemma scan_normal_digit:
  assumes "list_all isChineseUnit zs"
    and "list_all (\<lambda>c. \<not> isChineseUnit c \<and> \<not> isNumericUnit c) qs"
    and "isNumericUnit d" and "l = 0 \<or> qs \<noteq> []"
  shows "fst (scan l (zs @ qs @ [d]) [] []) = \<lparr>chinese = zs, english = qs\<rparr>"
proof -
  have d: "\<not> isChineseUnit d" using assms(3) chinese_not_numeric by blast
  show ?thesis using assms d
    by (auto simp: scan_append scan_all_chinese scan_query)
qed

lemma scan_kept_digit:
  assumes "list_all isChineseUnit zs" and "isNumericUnit d" and "l \<noteq> 0"
  shows "fst (scan l (zs @ [d]) [] []) = \<lparr>chinese = zs, english = [d]\<rparr>"
proof -
  have d: "\<not> isChineseUnit d" using assms(2) chinese_not_numeric by blast
  show ?thesis using assms d by (auto simp: scan_append scan_all_chinese)
qed

lemma scan_no_digit:
  "list_all (\<lambda>c. \<not> isNumericUnit c) s \<Longrightarrow>
     english (fst (scan l s zh en)) = en @ spec_query s"
  by (induction s arbitrary: l zh en) (auto simp: spec_query_def)

lemma separateChineseAndEnglish_no_digit:
  "chineseLastIndex re = 0 \<Longrightarrow> list_all (\<lambda>c. \<not> isNumericUnit c) s \<Longrightarrow>
     english (fst (separateChineseAndEnglish re s)) = spec_query s"
  by (simp add: separateChineseAndEnglish_scan scan_no_digit)

subsection \<open>A trailing digit from 1 to 6\<close>

lemmas machine_defs = handleSearchTextChange_def handleNumericAction_def selectionMatch_def
  handleSuggestionSelect_def goToNextPage_def goToPreviousPage_def paginatedSuggestions_def
  pageOf_def usePagination_def SUGGESTIONS_PER_PAGE_def slice_def NUMERIC_KEYS_def
  separateChineseAndEnglish_def regexTest_def isChineseUnit_def isNumericUnit_def
  isHighSurrogate_def isLowSurrogate_def isLineTerminator_def isWhiteSpace_def isTrimmed_def
  trim_def initialState_def freshRegexes_def ascii_def

lemma trim_nonempty_last:
  "\<not> isTrimmed d \<Longrightarrow> trim (b @ [d]) \<noteq> []"
  by (auto simp: trim_empty_iff)

lemma selection_digit:
  assumes "digit \<in> set (ascii ''123456'')"
  shows "digit \<in> NUMERIC_KEYS" and "\<not> isTrimmed digit" and "isNumericUnit digit"
    and "1 \<le> uint digit - 48" and "uint digit - 48 \<le> 6"
    and "nat (uint digit - 48 - 1) = unat digit - 49"
  using assms
  by (auto simp: ascii_def NUMERIC_KEYS_def isTrimmed_def isWhiteSpace_def isLineTerminator_def
      isNumericUnit_def)

lemma selectionMatch_digit:
  assumes "digit \<in> NUMERIC_KEYS" and "list_all (\<lambda>u. \<not> isLineTerminator u) baseText"
  shows "selectionMatch (baseText @ [digit]) = Some (baseText, uint digit - 48)"
  using assms by (simp add: selectionMatch_def)

lemma handleNumericAction_select:
  assumes "digit \<in> set (ascii ''123456'')"
    and "list_all (\<lambda>u. \<not> isLineTerminator u) baseText"
    and "unat digit - 48 \<le> length (paginatedSuggestions st)"
  shows "handleNumericAction st (baseText @ [digit])
           = (True, handleSuggestionSelect st (paginatedSuggestions st ! (unat digit - 49)))"
proof -
  note d = selection_digit [OF assms(1)]
  have "unat digit - 49 < length (paginatedSuggestions st)"
    using assms(1,3) by (auto simp: ascii_def)
  then show ?thesis
    using d selectionMatch_digit [OF d(1) assms(2)]
    by (simp add: handleNumericAction_def)
qed

lemma handleNumericAction_no_candidate:
  assumes "digit \<in> set (ascii ''123456'')"
    and "length (paginatedSuggestions st) < unat digit - 48"
  shows "handleNumericAction st (baseText @ [digit]) = (False, st)"
proof -
  note d = selection_digit [OF assms(1)]
  have n: "\<not> unat digit - 49 < length (paginatedSuggestions st)"
    using assms by (auto simp: ascii_def)
  show ?thesis
  proof (cases "list_all (\<lambda>u. \<not> isLineTerminator u) baseText")
    case True
    then show ?thesis using d n selectionMatch_digit [OF d(1) True]
      by (simp add: handleNumericAction_def)
  next
    case False
    then have "selectionMatch (baseText @ [digit]) = None" by (simp add: selectionMatch_def)
    then show ?thesis by (simp add: handleNumericAction_def)
  qed
qed

lemma handleSearchTextChange_no_candidate:
  assumes "digit \<in> set (ascii ''123456'')"
    and "length (paginatedSuggestions st) < unat digit - 48"
  shows "handleSearchTextChange st (baseText @ [digit])
     = st\<lparr>searchText :=
            chinese (fst (separateChineseAndEnglish (regexState st) (baseText @ [digit])))
            @ english (fst (separateChineseAndEnglish (regexState st) (baseText @ [digit]))),
          regexState := snd (separateChineseAndEnglish (regexState st) (baseText @ [digit]))\<rparr>"
proof -
  have t: "trim (baseText @ [digit]) \<noteq> []"
    using selection_digit(2) [OF assms(1)] by (rule trim_nonempty_last)
  show ?thesis
    using t handleNumericAction_no_candidate [OF assms]
    by (simp add: handleSearchTextChange_def case_prod_beta)
qed

lemma nei_page: "paginatedSuggestions nei_state = [[0x5C3C], [0x59AE], [0x5462], [0x6CE5], [0x4F60], [0x60A8]]"
  by (simp add: paginatedSuggestions_def pageOf_def nei_state_def shown_def seven_candidates_def
      initialState_def usePagination_def SUGGESTIONS_PER_PAGE_def slice_def)

lemma next_page_step:
  "handleSearchTextChange typed_a (ascii ''a'' @ [0x4E2D] @ ascii ''0'')
     = typed_a\<lparr>searchText := ascii ''a'' @ [0x4E2D], currentPage := 1\<rparr>"
  by (simp add: typed_a_def shown_def seven_candidates_def machine_defs)

text \<open>
  Claim C6. For every buffer-change event whose text is a base without line terminators
  followed by a digit \<open>n\<close> from 1 to 6 such that the current page has a candidate at
  position \<open>n\<close>, the new buffer is the retained part (the units of U+4E00 to U+9FFF) of
  the buffer as it stood before the event followed by the text of that candidate, the
  has-selected flag is set, and the candidate list is empty. The witness is the buffer
  \<open>nei\<close> with the event \<open>nei5\<close> and U+4F60 as the fifth candidate of the page: the new
  buffer is U+4F60.
\<close>

theorem select_candidate:
  assumes "digit \<in> set (ascii ''123456'')"
    and "list_all (\<lambda>u. \<not> isLineTerminator u) baseText"
    and "unat digit - 48 \<le> length (paginatedSuggestions st)"
    and "chineseLastIndex (regexState st) = 0"
  shows "searchText (handleSearchTextChange st (baseText @ [digit]))
           = filter isChineseUnit (searchText st) @ paginatedSuggestions st ! (unat digit - 49)
         \<and> hasSelectedSuggestion (handleSearchTextChange st (baseText @ [digit]))
         \<and> suggestions (handleSearchTextChange st (baseText @ [digit])) = []"
proof -
  have t: "trim (baseText @ [digit]) \<noteq> []"
    using selection_digit(2) [OF assms(1)] by (rule trim_nonempty_last)
  have "handleSearchTextChange st (baseText @ [digit])
          = handleSuggestionSelect st (paginatedSuggestions st ! (unat digit - 49))"
    using t handleNumericAction_select [OF assms(1,2,3)]
    by (simp add: handleSearchTextChange_def)
  then show ?thesis
    using separateChineseAndEnglish_chinese [OF assms(4), of "searchText st"]
    by (simp add: handleSuggestionSelect_def case_prod_beta)
qed

theorem select_candidate_witness:
  "paginatedSuggestions nei_state ! 4 = [0x4F60]
   \<and> filter isChineseUnit (searchText nei_state) = []
   \<and> searchText (handleSearchTextChange nei_state (ascii ''nei5'')) = [0x4F60]
   \<and> hasSelectedSuggestion (handleSearchTextChange nei_state (ascii ''nei5''))
   \<and> suggestions (handleSearchTextChange nei_state (ascii ''nei5'')) = []"
proof -
  have d: "(0x35::code_unit) \<in> set (ascii ''123456'')" by (simp add: ascii_def)
  have b: "list_all (\<lambda>u. \<not> isLineTerminator u) (ascii ''nei'')"
    by (simp add: ascii_def isLineTerminator_def)
  have n: "unat (0x35::code_unit) - 48 \<le> length (paginatedSuggestions nei_state)"
    by (simp add: nei_page)
  have r: "chineseLastIndex (regexState nei_state) = 0"
    by (simp add: nei_state_def shown_def initialState_def freshRegexes_def)
  have f: "filter isChineseUnit (searchText nei_state) = []"
    by (simp add: nei_state_def shown_def initialState_def ascii_def isChineseUnit_def)
  have e: "ascii ''nei'' @ [0x35] = ascii ''nei5''" by (simp add: ascii_def)
  show ?thesis
    using select_candidate [OF d b n r] f by (simp add: nei_page e)
qed

text \<open>
  Claim C7 says that an event whose text ends in a digit \<open>n\<close> from 1 to 6, when the
  current page has no candidate at position \<open>n\<close>, leaves the buffer unchanged. It does
  not in general: the buffer is replaced by the segments of the event text, retained part
  first. From seven candidates for the buffer \<open>a\<close>, the event \<open>a\<close> U+4E2D \<open>0\<close> turns
  the page and makes the buffer \<open>a\<close> U+4E2D; the second page has one candidate; and the
  event that appends \<open>5\<close> to that buffer makes it U+4E2D \<open>a\<close>.
\<close>

theorem digit_without_candidate_changes_buffer:
  "searchText (handleSearchTextChange typed_a (ascii ''a'' @ [0x4E2D] @ ascii ''0''))
     = ascii ''a'' @ [0x4E2D]
   \<and> length (paginatedSuggestions
        (handleSearchTextChange typed_a (ascii ''a'' @ [0x4E2D] @ ascii ''0''))) = 1
   \<and> searchText (handleSearchTextChange
        (handleSearchTextChange typed_a (ascii ''a'' @ [0x4E2D] @ ascii ''0''))
        (ascii ''a'' @ [0x4E2D] @ ascii ''5''))
     = [0x4E2D] @ ascii ''a''"
  unfolding next_page_step
  by (simp add: typed_a_def shown_def seven_candidates_def machine_defs)

text \<open>
  Claim C7 as amended. For every buffer-change event whose text ends in a digit \<open>n\<close>
  from 1 to 6 such that the current page has no candidate at position \<open>n\<close>, nothing is
  selected and no page is turned: the page index, the candidate list and the has-selected
  flag are unchanged, and the buffer becomes the retained part of the event text followed
  by its query part, as the segmenter returns them. When the event text is the buffer
  followed by the digit and the buffer was a run of units of U+4E00 to U+9FFF followed
  by units that are neither such units nor digits, the buffer is unchanged if that second
  run is not empty or \<open>lastIndex\<close> of \<open>NUMERIC_REGEX\<close> is 0; if the second run is
  empty and \<open>lastIndex\<close> is not 0, the digit is appended to the buffer.
\<close>

theorem digit_without_candidate:
  assumes "digit \<in> set (ascii ''123456'')"
    and "length (paginatedSuggestions st) < unat digit - 48"
  shows "currentPage (handleSearchTextChange st (baseText @ [digit])) = currentPage st
     \<and> suggestions (handleSearchTextChange st (baseText @ [digit])) = suggestions st
     \<and> hasSelectedSuggestion (handleSearchTextChange st (baseText @ [digit]))
         = hasSelectedSuggestion st
     \<and> searchText (handleSearchTextChange st (baseText @ [digit]))
         = chinese (fst (separateChineseAndEnglish (regexState st) (baseText @ [digit])))
           @ english (fst (separateChineseAndEnglish (regexState st) (baseText @ [digit])))
     \<and> (baseText = searchText st \<and> searchText st = zs @ qs \<and> list_all isChineseUnit zs
          \<and> list_all (\<lambda>c. \<not> isChineseUnit c \<and> \<not> isNumericUnit c) qs
          \<and> chineseLastIndex (regexState st) = 0
        \<longrightarrow> searchText (handleSearchTextChange st (baseText @ [digit]))
              = (if numericLastIndex (regexState st) = 0 \<or> qs \<noteq> [] then searchText st
                 else searchText st @ [digit]))"
proof -
  note step = handleSearchTextChange_no_candidate [OF assms, of baseText]
  note d = selection_digit(3) [OF assms(1)]
  have "searchText (handleSearchTextChange st (baseText @ [digit]))
          = (if numericLastIndex (regexState st) = 0 \<or> qs \<noteq> [] then searchText st
             else searchText st @ [digit])"
    if h: "baseText = searchText st" "searchText st = zs @ qs" "list_all isChineseUnit zs"
      "list_all (\<lambda>c. \<not> isChineseUnit c \<and> \<not> isNumericUnit c) qs"
      "chineseLastIndex (regexState st) = 0"
  proof (cases "numericLastIndex (regexState st) = 0 \<or> qs \<noteq> []")
    case True
    have "fst (separateChineseAndEnglish (regexState st) (baseText @ [digit]))
            = \<lparr>chinese = zs, english = qs\<rparr>"
      using scan_normal_digit [OF h(3,4) d True] h(1,2)
      by (simp add: separateChineseAndEnglish_scan [OF h(5)])
    then show ?thesis using step h(2) True by simp
  next
    case False
    then have l: "numericLastIndex (regexState st) \<noteq> 0" and q: "qs = []" by simp_all
    have "fst (separateChineseAndEnglish (regexState st) (baseText @ [digit]))
            = \<lparr>chinese = zs, english = [digit]\<rparr>"
      using scan_kept_digit [OF h(3) d l] h(1,2) q
      by (simp add: separateChineseAndEnglish_scan [OF h(5)])
    then show ?thesis using step h(2) False q by simp
  qed
  then show ?thesis using step by simp
qed

theorem digit_without_candidate_witness:
  "length (paginatedSuggestions (initialState\<lparr>searchText := ascii ''nei''\<rparr>))
     < unat (0x35 :: code_unit) - 48
   \<and> searchText (handleSearchTextChange (initialState\<lparr>searchText := ascii ''nei''\<rparr>)
        (ascii ''nei'' @ [0x35]))
       = ascii ''nei''
   \<and> suggestions (handleSearchTextChange (initialState\<lparr>searchText := ascii ''nei''\<rparr>)
        (ascii ''nei'' @ [0x35]))
       = []
   \<and> currentPage (handleSearchTextChange (initialState\<lparr>searchText := ascii ''nei''\<rparr>)
        (ascii ''nei'' @ [0x35]))
       = 0"
proof -
  let ?st = "initialState\<lparr>searchText := ascii ''nei''\<rparr>"
  let ?st' = "handleSearchTextChange ?st (ascii ''nei'' @ [0x35])"
  have d: "(0x35::code_unit) \<in> set (ascii ''123456'')" by (simp add: ascii_def)
  have n: "length (paginatedSuggestions ?st) < unat (0x35 :: code_unit) - 48"
    by (simp add: paginatedSuggestions_def initialState_def)
  note inst = digit_without_candidate [OF d n, of "ascii ''nei''" "[]" "ascii ''nei''"]
  have q: "list_all (\<lambda>c. \<not> isChineseUnit c \<and> \<not> isNumericUnit c) (ascii ''nei'')"
    by (simp add: ascii_def isChineseUnit_def isNumericUnit_def)
  have r: "chineseLastIndex (regexState ?st) = 0" "numericLastIndex (regexState ?st) = 0"
    by (simp_all add: initialState_def freshRegexes_def)
  have s: "searchText ?st = ascii ''nei''" "suggestions ?st = []" "currentPage ?st = 0"
    by (simp_all add: initialState_def)
  have pre: "ascii ''nei'' = searchText ?st \<and> searchText ?st = [] @ ascii ''nei''
      \<and> list_all isChineseUnit []
      \<and> list_all (\<lambda>c. \<not> isChineseUnit c \<and> \<not> isNumericUnit c) (ascii ''nei'')
      \<and> chineseLastIndex (regexState ?st) = 0"
    using q r s by simp
  have "searchText ?st'
          = (if numericLastIndex (regexState ?st) = 0 \<or> ascii ''nei'' \<noteq> [] then searchText ?st
             else searchText ?st @ [0x35])"
    using inst pre by blast
  then have a: "searchText ?st' = searchText ?st" using r(2) by (simp only: simp_thms if_True)
  have b: "suggestions ?st' = suggestions ?st" using inst by blast
  have c: "currentPage ?st' = currentPage ?st" using inst by blast
  show ?thesis using n a b c s by metis
qed

text \<open>
  The second case arises in use: after the candidate U+4F60 was selected for the buffer
  \<open>nei\<close>, the event U+4F60 \<open>5\<close> leaves the buffer as it is and \<open>lastIndex\<close> at 1, and
  the same event again makes the buffer U+4F60 \<open>5\<close>.
\<close>

lemma digit_after_dropped_digit:
  "searchText (handleSearchTextChange nei_state (ascii ''nei5'')) = [0x4F60]
   \<and> searchText (handleSearchTextChange (handleSearchTextChange nei_state (ascii ''nei5''))
        ([0x4F60] @ ascii ''5''))
     = [0x4F60]
   \<and> searchText (handleSearchTextChange
        (handleSearchTextChange (handleSearchTextChange nei_state (ascii ''nei5''))
           ([0x4F60] @ ascii ''5''))
        ([0x4F60] @ ascii ''5''))
     = [0x4F60] @ ascii ''5''"
  by (simp add: nei_state_def shown_def seven_candidates_def machine_defs)

subsection \<open>The debounced query\<close>

lemma suggestionsUrl_blank:
  assumes "trim (english (fst (separateChineseAndEnglish re debounced))) = []"
  shows "fst (suggestionsUrl debounced re cache) = Inr []
         \<and> snd (snd (suggestionsUrl debounced re cache)) = cache"
  using assms by (simp add: suggestionsUrl_def case_prod_beta)

text \<open>
  Claim C8 says that when the trimmed query part of the debounced buffer is empty, no
  locator is built, no request is made, and any displayed candidates are cleared. The
  last part fails: when the input is cleared while the candidates for \<open>nei\<close> are shown,
  the debounce step makes the locator empty and no request is made, and the first page of
  those candidates is still what the component shows.
\<close>

theorem debounce_blank_query_keeps_candidates:
  "searchText cleared_input = []
   \<and> debounceElapsed cleared_input
       = Inr (cleared_input\<lparr>debouncedSearchText := [], locator := []\<rparr>)
   \<and> \<not> execute (cleared_input\<lparr>debouncedSearchText := [], locator := []\<rparr>)
   \<and> paginatedSuggestions (cleared_input\<lparr>debouncedSearchText := [], locator := []\<rparr>)
       = [[0x5C3C], [0x59AE], [0x5462], [0x6CE5], [0x4F60], [0x60A8]]"
  by (simp add: cleared_input_def shown_def seven_candidates_def debounceElapsed_def suggestionsUrl_def
      execute_def trim_def initialState_def paginatedSuggestions_def pageOf_def
      usePagination_def SUGGESTIONS_PER_PAGE_def slice_def ascii_def)

text \<open>
  Claim C8 as amended. Whenever the debounce step takes a buffer that holds no digit and
  whose trimmed query part is empty, the render succeeds, the locator is empty, no
  request is made, the builder is not called (the URL cache is unchanged), and the
  candidate list is left as it is: the component clears it only when a candidate is
  selected.
\<close>

theorem debounce_blank_query:
  assumes "searchText st \<noteq> debouncedSearchText st"
    and "chineseLastIndex (regexState st) = 0"
    and "list_all (\<lambda>c. \<not> isNumericUnit c) (searchText st)"
    and "trim (spec_query (searchText st)) = []"
  shows "\<exists>st'. debounceElapsed st = Inr st' \<and> debouncedSearchText st' = searchText st
           \<and> locator st' = [] \<and> \<not> execute st'
           \<and> cacheState st' = cacheState st \<and> suggestions st' = suggestions st"
proof -
  have "trim (english (fst (separateChineseAndEnglish (regexState st) (searchText st)))) = []"
    using assms(4) by (simp add: separateChineseAndEnglish_no_digit [OF assms(2,3)])
  then show ?thesis
    using assms(1) suggestionsUrl_blank [of "regexState st" "searchText st" "cacheState st"]
    by (simp add: debounceElapsed_def execute_def case_prod_beta)
qed

theorem debounce_blank_query_witness:
  "searchText selected_state \<noteq> debouncedSearchText selected_state
   \<and> chineseLastIndex (regexState selected_state) = 0
   \<and> list_all (\<lambda>c. \<not> isNumericUnit c) (searchText selected_state)
   \<and> trim (spec_query (searchText selected_state)) = []
   \<and> (\<exists>st'. debounceElapsed selected_state = Inr st'
         \<and> debouncedSearchText st' = searchText selected_state
         \<and> locator st' = [] \<and> \<not> execute st'
         \<and> cacheState st' = cacheState selected_state
         \<and> suggestions st' = suggestions selected_state)"
proof -
  have a: "searchText selected_state \<noteq> debouncedSearchText selected_state"
    by (simp add: selected_state_def shown_def initialState_def ascii_def)
  have r: "chineseLastIndex (regexState selected_state) = 0"
    by (simp add: selected_state_def shown_def initialState_def freshRegexes_def)
  have n: "list_all (\<lambda>c. \<not> isNumericUnit c) (searchText selected_state)"
    by (simp add: selected_state_def shown_def initialState_def isNumericUnit_def)
  have b: "trim (spec_query (searchText selected_state)) = []"
    by (simp add: selected_state_def shown_def initialState_def spec_query_def
        isChineseUnit_def trim_def)
  show ?thesis using debounce_blank_query [OF a r n b] a r n b by blast
qed

text \<open>
  A buffer that holds a digit is left out of the statement. The segmenter of utils.ts
  can keep a digit in the query part, and a request is then made for it: on a component
  just started, the event \<open>555\<close> makes the buffer \<open>5\<close>, whose query part in the words of
  the specification is empty, and the debounce step builds the locator of \<open>5\<close>.
\<close>

lemma debounce_leaked_digit:
  "searchText (handleSearchTextChange initialState (ascii ''555'')) = ascii ''5''
   \<and> spec_query (ascii ''5'') = []
   \<and> (\<exists>st'. debounceElapsed (handleSearchTextChange initialState (ascii ''555'')) = Inr st'
         \<and> locator st' = urlOf (ascii ''5'') \<and> execute st')"
proof -
  have st: "handleSearchTextChange initialState (ascii ''555'')
      = initialState\<lparr>searchText := ascii ''5'',
          regexState := \<lparr>chineseLastIndex = 0, numericLastIndex = 1\<rparr>\<rparr>"
    by (simp add: machine_defs)
  have q: "spec_query (ascii ''5'') = []"
    by (simp add: spec_query_def ascii_def isChineseUnit_def isNumericUnit_def)
  have enc: "encodeURIComponent (ascii ''5'') = Inr (ascii ''5'')"
    by (rule encodeURIComponent_unreserved) (simp add: ascii_def isUnreserved_def)
  have url: "suggestionsUrl (ascii ''5'') \<lparr>chineseLastIndex = 0, numericLastIndex = 1\<rparr> []
      = (Inr (urlOf (ascii ''5'')), \<lparr>chineseLastIndex = 0, numericLastIndex = 0\<rparr>,
         [(ascii ''5'', urlOf (ascii ''5''))])"
  proof -
    have t: "trim (ascii ''5'') = ascii ''5''"
      by (simp add: trim_def ascii_def isTrimmed_def isWhiteSpace_def isLineTerminator_def)
    have seg: "separateChineseAndEnglish \<lparr>chineseLastIndex = 0, numericLastIndex = 1\<rparr> (ascii ''5'')
        = (\<lparr>chinese = [], english = ascii ''5''\<rparr>, \<lparr>chineseLastIndex = 0, numericLastIndex = 0\<rparr>)"
      by (simp add: separateChineseAndEnglish_def regexTest_def isChineseUnit_def ascii_def)
    have b: "buildSuggestionsUrl (ascii ''5'') (Some []) []
        = (Inr (urlOf (ascii ''5'')), [(ascii ''5'', urlOf (ascii ''5''))])"
      using enc by (simp add: buildSuggestionsUrl_def cacheKeyOf_def evictOldest_def
          MAX_CACHE_SIZE_def Let_def)
    have ne: "ascii ''5'' \<noteq> []" by (simp add: ascii_def)
    show ?thesis using t seg b ne by (simp add: suggestionsUrl_def)
  qed
  have u: "urlOf (ascii ''5'') \<noteq> []" by (simp add: urlOf_def ascii_def)
  have ne: "ascii ''5'' \<noteq> []" by (simp add: ascii_def)
  have "debounceElapsed (initialState\<lparr>searchText := ascii ''5'',
          regexState := \<lparr>chineseLastIndex = 0, numericLastIndex = 1\<rparr>\<rparr>)
      = Inr (initialState\<lparr>searchText := ascii ''5'', debouncedSearchText := ascii ''5'',
          locator := urlOf (ascii ''5''),
          regexState := \<lparr>chineseLastIndex = 0, numericLastIndex = 0\<rparr>,
          cacheState := [(ascii ''5'', urlOf (ascii ''5''))]\<rparr>)"
    using url ne by (simp add: debounceElapsed_def initialState_def)
  then show ?thesis using st q u by (simp add: execute_def)
qed

subsection \<open>An invariant of the module state\<close>

text \<open>
  Every step of the component leaves \<open>lastIndex\<close> of \<open>CHINESE_REGEX\<close> at 0, the value
  it has when the module is loaded.
\<close>

lemma handleSuggestionSelect_chineseLastIndex:
  "chineseLastIndex (regexState st) = 0 \<Longrightarrow>
     chineseLastIndex (regexState (handleSuggestionSelect st c)) = 0"
  using separateChineseAndEnglish_chineseLastIndex [of "regexState st" "searchText st"]
  by (simp add: handleSuggestionSelect_def case_prod_beta)

lemma handleNumericAction_chineseLastIndex:
  "chineseLastIndex (regexState st) = 0 \<Longrightarrow>
     chineseLastIndex (regexState (snd (handleNumericAction st s))) = 0"
  by (auto simp: handleNumericAction_def goToNextPage_def goToPreviousPage_def
      handleSuggestionSelect_chineseLastIndex Let_def split: option.splits)

lemma handleSearchTextChange_chineseLastIndex:
  assumes "chineseLastIndex (regexState st) = 0"
  shows "chineseLastIndex (regexState (handleSearchTextChange st s)) = 0"
proof -
  let ?st1 = "if trim s = [] then st\<lparr>hasSelectedSuggestion := False\<rparr> else st"
  have 1: "chineseLastIndex (regexState ?st1) = 0" using assms by simp
  have 2: "chineseLastIndex (regexState (snd (handleNumericAction ?st1 s))) = 0"
    using 1 by (rule handleNumericAction_chineseLastIndex)
  show ?thesis
    using 2 separateChineseAndEnglish_chineseLastIndex [OF 2, of s]
    by (simp add: handleSearchTextChange_def case_prod_beta Let_def)
qed

lemma debounceElapsed_chineseLastIndex:
  assumes "chineseLastIndex (regexState st) = 0" and "debounceElapsed st = Inr st'"
  shows "chineseLastIndex (regexState st') = 0"
proof -
  have "chineseLastIndex (fst (snd (suggestionsUrl s (regexState st) c))) = 0" for s c
    using assms(1) separateChineseAndEnglish_chineseLastIndex [OF assms(1), of s]
    by (simp add: suggestionsUrl_def case_prod_beta)
  then show ?thesis using assms
    by (auto simp: debounceElapsed_def case_prod_beta split: if_splits sum.splits)
qed

end
